theory Spec2Isabelle
  imports Main
begin

section \<open>SimpleLogger: severity levels, targets and the dispatching logger\<close>

text \<open>
  A shallow embedding of \<^verbatim>\<open>src/SimpleLogger/SimpleLogger.hpp\<close>. Objects live in an
  explicit store: raw \<^verbatim>\<open>Target*\<close> pointers are addresses into \<open>objs\<close>, and a
  \<^verbatim>\<open>std::shared_ptr<Target*>\<close> is the address of the shared cell that
  \<^verbatim>\<open>std::make_shared\<close> allocated for it (the identity that \<^verbatim>\<open>operator==\<close> on shared
  pointers compares). Stream output is the text written so far. Undefined behaviour and
  the stream exceptions armed by \<^verbatim>\<open>exceptions(failbit | badbit)\<close> are values of type
  \<open>fault\<close>; a function that can meet one returns \<open>fault + result\<close>.

  The \<^verbatim>\<open>int\<close> members are integers, with the overflow of \<^verbatim>\<open>InsertIndex++\<close> and
  \<^verbatim>\<open>InsertIndex--\<close> as undefined behaviour. The clock and the thread id are supplied by
  the environment. A write to standard output, and a write to a file stream in the good
  state, append their text. The message template overload of \<^verbatim>\<open>Log\<close> formats its
  arguments with the formatting library and then calls the overload modelled here.
\<close>

subsection \<open>Severity levels\<close>

datatype SeverityLevels =
  Unknown | Failure | Error | Warning | Important | Info | Debug | Verbose

text \<open>\<^verbatim>\<open>static_cast<int>(severityLevel)\<close>: the enumerators' declared values.\<close>

fun ordinal :: "SeverityLevels \<Rightarrow> int" where
  "ordinal Unknown = 5"
| "ordinal Failure = 4"
| "ordinal Error = 3"
| "ordinal Warning = 2"
| "ordinal Important = 1"
| "ordinal Info = 0"
| "ordinal Debug = - 1"
| "ordinal Verbose = - 2"

definition INT_MAX :: int where
  "INT_MAX = 2147483647"

definition INT_MIN :: int where
  "INT_MIN = - 2147483648"

subsection \<open>The store\<close>

type_synonym addr = nat

type_synonym handle = nat

datatype fault = UndefinedBehaviour | ios_failure

text \<open>The members of the base class \<^verbatim>\<open>Target\<close>.\<close>

record Target =
  Prefix :: string
  AddColors :: bool
  WholeMessageColor :: bool
  FilePath :: string
  AppendToFile :: bool
  AddTime :: bool
  AddThreadID :: bool

text \<open>
  \<^verbatim>\<open>std::fstream logFileRead\<close>: whether the stream is in the good state, and the
  characters written through it.
\<close>

record fstream =
  fs_good :: bool
  fs_data :: string

text \<open>The two derived classes; a \<^verbatim>\<open>FileTarget\<close> adds its stream.\<close>

datatype TargetObj = ConsoleTarget Target | FileTarget Target fstream

fun base :: "TargetObj \<Rightarrow> Target" where
  "base (ConsoleTarget t) = t"
| "base (FileTarget t f) = t"

fun map_base :: "(Target \<Rightarrow> Target) \<Rightarrow> TargetObj \<Rightarrow> TargetObj" where
  "map_base g (ConsoleTarget t) = ConsoleTarget (g t)"
| "map_base g (FileTarget t f) = FileTarget (g t) f"

text \<open>
  The store. \<open>cells\<close> holds the \<^verbatim>\<open>Target*\<close> values owned by shared pointers: the cell
  of handle \<open>h\<close> is \<open>cells ! h\<close>, and allocation takes the next unused index, so a new
  cell differs from every cell allocated before (a cell is released only when no shared
  pointer holds it any more, so a released cell is in no logger and in no caller's
  hands, and releases are not tracked). \<open>cout\<close> is the text written to
  standard output, \<open>clock_reads\<close> counts the readings of the system clock, and \<open>rendered\<close>
  is a ghost history of the virtual \<^verbatim>\<open>Log\<close> calls made on targets, in call order.
\<close>

record heap =
  cells :: "addr list"
  objs :: "addr \<rightharpoonup> TargetObj"
  cout :: string
  clock_reads :: nat
  rendered :: "(addr \<times> SeverityLevels \<times> string) list"

text \<open>
  What the environment supplies: the text of the \<open>n\<close>-th reading of the UTC clock
  (\<^verbatim>\<open>{:%F %T}\<close> of the current second), the printed id of the calling thread, and
  whether the standard library's output sentry sets \<open>failbit\<close> on a stream that is not
  good, which the C++ standard leaves to the library.
\<close>

record env =
  clock :: "nat \<Rightarrow> string"
  thread_id :: string
  sentry_throws :: bool

subsection \<open>Target\<close>

definition Target_default :: Target where
  "Target_default =
     \<lparr>Prefix = [], AddColors = True, WholeMessageColor = True,
      FilePath = ''logs/LogFile.log'', AppendToFile = False,
      AddTime = True, AddThreadID = True\<rparr>"

definition Target_SetPrefix :: "string \<Rightarrow> Target \<Rightarrow> Target" where
  "Target_SetPrefix prefix t = t\<lparr>Prefix := prefix\<rparr>"

definition EnableColors :: "bool \<Rightarrow> bool \<Rightarrow> Target \<Rightarrow> Target" where
  "EnableColors shouldEnable wholeMessageColor t =
     t\<lparr>AddColors := shouldEnable, WholeMessageColor := wholeMessageColor\<rparr>"

definition DisableColors :: "Target \<Rightarrow> Target" where
  "DisableColors t = t\<lparr>AddColors := False\<rparr>"

definition UTCTime :: "env \<Rightarrow> heap \<Rightarrow> string \<times> heap" where
  "UTCTime e H = (clock e (clock_reads H), H\<lparr>clock_reads := Suc (clock_reads H)\<rparr>)"

fun SeverityLevelToText :: "SeverityLevels \<Rightarrow> string" where
  "SeverityLevelToText Failure = ''[ FAILURE ]''"
| "SeverityLevelToText Error = ''[  ERROR  ]''"
| "SeverityLevelToText Warning = ''[ WARNING ]''"
| "SeverityLevelToText Important = ''[IMPORTANT]''"
| "SeverityLevelToText Info = ''[  INFO   ]''"
| "SeverityLevelToText Debug = ''[  DEBUG  ]''"
| "SeverityLevelToText Verbose = ''[ VERBOSE ]''"
| "SeverityLevelToText Unknown = ''[ UNKNOWN ]''"

fun SeverityLevelToColor :: "SeverityLevels \<Rightarrow> string" where
  "SeverityLevelToColor Failure = CHR 0x1B # ''[31m''"
| "SeverityLevelToColor Error = CHR 0x1B # ''[91m''"
| "SeverityLevelToColor Warning = CHR 0x1B # ''[33m''"
| "SeverityLevelToColor Important = CHR 0x1B # ''[32m''"
| "SeverityLevelToColor Info = CHR 0x1B # ''[34m''"
| "SeverityLevelToColor Debug = CHR 0x1B # ''[35m''"
| "SeverityLevelToColor Verbose = CHR 0x1B # ''[35m''"
| "SeverityLevelToColor Unknown = CHR 0x1B # ''[90m''"

text \<open>The overload without an argument: the reset sequence.\<close>

definition SeverityLevelToColor_reset :: string where
  "SeverityLevelToColor_reset = CHR 0x1B # ''[0m''"

subsection \<open>ConsoleTarget\<close>

definition ConsoleTarget_new :: "bool \<Rightarrow> bool \<Rightarrow> bool \<Rightarrow> bool \<Rightarrow> TargetObj" where
  "ConsoleTarget_new addColors wholeMessageColor addTime addThreadID =
     ConsoleTarget (Target_default\<lparr>AddColors := addColors,
       WholeMessageColor := wholeMessageColor, AddTime := addTime,
       AddThreadID := addThreadID\<rparr>)"

text \<open>\<^verbatim>\<open>std::cout << s\<close>.\<close>

definition cout_put :: "string \<Rightarrow> heap \<Rightarrow> heap" where
  "cout_put s H = H\<lparr>cout := cout H @ s\<rparr>"

definition ConsoleTarget_Log ::
  "env \<Rightarrow> Target \<Rightarrow> SeverityLevels \<Rightarrow> string \<Rightarrow> heap \<Rightarrow> heap" where
  "ConsoleTarget_Log e t severityLevel message H0 =
     (let H1 = (if Prefix t \<noteq> [] then cout_put '' '' (cout_put (Prefix t) H0) else H0);
          H2 = (if AddColors t \<and> WholeMessageColor t
                then cout_put (SeverityLevelToColor severityLevel) H1 else H1);
          H3 = (if AddTime t
                then (case UTCTime e H2 of (now, H') \<Rightarrow> cout_put '' '' (cout_put now H'))
                else H2);
          H4 = (if AddColors t \<and> WholeMessageColor t
                then cout_put '' '' (cout_put (SeverityLevelToText severityLevel) H3)
                else if AddColors t \<and> \<not> WholeMessageColor t
                then cout_put '' '' (cout_put SeverityLevelToColor_reset
                       (cout_put (SeverityLevelToText severityLevel)
                         (cout_put (SeverityLevelToColor severityLevel) H3)))
                else cout_put '' '' (cout_put (SeverityLevelToText severityLevel) H3));
          H5 = (if AddThreadID t
                then cout_put '' '' (cout_put '']'' (cout_put (thread_id e) (cout_put ''['' H4)))
                else H4);
          H6 = cout_put [CHR 0x0A] (cout_put message H5)
      in if AddColors t \<and> WholeMessageColor t
         then cout_put SeverityLevelToColor_reset H6 else H6)"

subsection \<open>FileTarget\<close>

text \<open>
  The constructor opens the file; \<open>open_ok\<close> is the file system's answer. A failed open
  leaves the stream in the fail state; the exception raised when the mask is armed is
  caught inside the constructor.
\<close>

definition FileTarget_new :: "bool \<Rightarrow> string \<Rightarrow> bool \<Rightarrow> bool \<Rightarrow> bool \<Rightarrow> TargetObj" where
  "FileTarget_new open_ok filePath shouldAppend addTime addThreadID =
     FileTarget (Target_default\<lparr>FilePath := filePath, AppendToFile := shouldAppend,
         AddTime := addTime, AddThreadID := addThreadID\<rparr>)
       \<lparr>fs_good = open_ok, fs_data = []\<rparr>"

text \<open>
  \<^verbatim>\<open>logFileRead << s\<close>: the text is appended when the stream is in the good state, and
  the sentry refuses the write otherwise.
\<close>

definition file_put :: "string \<Rightarrow> fstream \<Rightarrow> fstream" where
  "file_put s f = (if fs_good f then f\<lparr>fs_data := fs_data f @ s\<rparr> else f)"

text \<open>
  Every path through \<^verbatim>\<open>FileTarget::Log\<close> writes to the stream. On a stream that is not
  good, a sentry that sets \<open>failbit\<close> throws \<^verbatim>\<open>ios_base::failure\<close> at the first write,
  since the constructor armed \<open>failbit\<close> and \<open>badbit\<close>; with a sentry that does not, the
  writes are dropped and the call returns.
\<close>

definition FileTarget_Log ::
  "env \<Rightarrow> Target \<Rightarrow> fstream \<Rightarrow> SeverityLevels \<Rightarrow> string \<Rightarrow> heap \<Rightarrow> fault + fstream \<times> heap" where
  "FileTarget_Log e t f0 severityLevel message H0 =
     (if \<not> fs_good f0 \<and> sentry_throws e then Inl ios_failure
      else
        let f1 = (if Prefix t \<noteq> [] then file_put '' '' (file_put (Prefix t) f0) else f0);
            (f2, H2) = (if AddTime t
                        then (case UTCTime e H0 of
                                (now, H') \<Rightarrow> (file_put '' '' (file_put now f1), H'))
                        else (f1, H0));
            f3 = file_put '' '' (file_put (SeverityLevelToText severityLevel) f2);
            f4 = (if AddThreadID t
                  then file_put '' '' (file_put '']'' (file_put (thread_id e) (file_put ''['' f3)))
                  else f3)
        in Inr (file_put [CHR 0x0A] (file_put message f4), H2))"

subsection \<open>Calls through a raw pointer\<close>

text \<open>
  \<^verbatim>\<open>p->Log(severityLevel, message)\<close>: the virtual call on the object at \<open>p\<close>. Calling
  through a pointer to no object is undefined behaviour.
\<close>

definition Target_Log ::
  "env \<Rightarrow> addr \<Rightarrow> SeverityLevels \<Rightarrow> string \<Rightarrow> heap \<Rightarrow> fault + heap" where
  "Target_Log e p severityLevel message H =
     (case objs H p of
        None \<Rightarrow> Inl UndefinedBehaviour
      | Some (ConsoleTarget t) \<Rightarrow>
          Inr (ConsoleTarget_Log e t severityLevel message
                 (H\<lparr>rendered := rendered H @ [(p, severityLevel, message)]\<rparr>))
      | Some (FileTarget t f) \<Rightarrow>
          (case FileTarget_Log e t f severityLevel message
                  (H\<lparr>rendered := rendered H @ [(p, severityLevel, message)]\<rparr>) of
             Inl x \<Rightarrow> Inl x
           | Inr (f', H') \<Rightarrow> Inr (H'\<lparr>objs := (objs H')(p \<mapsto> FileTarget t f')\<rparr>)))"

text \<open>\<^verbatim>\<open>p->SetPrefix(prefix)\<close>.\<close>

definition SetPrefix :: "addr \<Rightarrow> string \<Rightarrow> heap \<Rightarrow> fault + heap" where
  "SetPrefix p prefix H =
     (case objs H p of
        None \<Rightarrow> Inl UndefinedBehaviour
      | Some obj \<Rightarrow> Inr (H\<lparr>objs := (objs H)(p \<mapsto> map_base (Target_SetPrefix prefix) obj)\<rparr>))"

subsection \<open>Logger\<close>

record Logger =
  VerboseLevel :: int
  InsertIndex :: int
  Targets :: "handle list"

definition Logger_new :: Logger where
  "Logger_new = \<lparr>VerboseLevel = ordinal Verbose, InsertIndex = 0, Targets = []\<rparr>"

text \<open>\<^verbatim>\<open>std::make_shared<Target*>(target)\<close>: a new cell holding the pointer.\<close>

definition make_shared :: "addr \<Rightarrow> heap \<Rightarrow> handle \<times> heap" where
  "make_shared target H = (length (cells H), H\<lparr>cells := cells H @ [target]\<rparr>)"

text \<open>\<^verbatim>\<open>v.emplace(v.begin() + i, x)\<close> for \<open>i\<close> within \<open>[0, size]\<close>.\<close>

definition emplace :: "handle list \<Rightarrow> nat \<Rightarrow> handle \<Rightarrow> handle list" where
  "emplace v i x = take i v @ x # drop i v"

text \<open>
  \<^verbatim>\<open>AddTarget\<close>. An iterator outside \<open>[begin, end]\<close>, an overflowing increment and
  an index outside the vector are undefined behaviour. The result is the value of the
  returned reference, the logger and the store.
\<close>

definition AddTarget :: "Logger \<Rightarrow> addr \<Rightarrow> heap \<Rightarrow> fault + handle \<times> Logger \<times> heap" where
  "AddTarget L target H =
     (case make_shared target H of (newTarget, H') \<Rightarrow>
        if InsertIndex L < 0 \<or> int (length (Targets L)) < InsertIndex L
        then Inl UndefinedBehaviour
        else
          let v = emplace (Targets L) (nat (InsertIndex L)) newTarget in
          if InsertIndex L = INT_MAX then Inl UndefinedBehaviour
          else
            let i = InsertIndex L + 1 in
            if i - 1 < 0 \<or> int (length v) \<le> i - 1 then Inl UndefinedBehaviour
            else Inr (v ! nat (i - 1), L\<lparr>InsertIndex := i, Targets := v\<rparr>, H'))"

text \<open>
  \<^verbatim>\<open>std::find(begin, end, x)\<close> as an index: the position of the first element equal
  to \<open>x\<close>, or the size of the vector for \<open>end\<close>.
\<close>

fun std_find :: "handle list \<Rightarrow> handle \<Rightarrow> nat" where
  "std_find [] x = 0"
| "std_find (y # ys) x = (if y = x then 0 else Suc (std_find ys x))"

text \<open>\<^verbatim>\<open>v.erase(v.begin() + i)\<close> for \<open>i\<close> below the size.\<close>

definition erase :: "handle list \<Rightarrow> nat \<Rightarrow> handle list" where
  "erase v i = take i v @ drop (Suc i) v"

definition DeleteTarget :: "Logger \<Rightarrow> handle \<Rightarrow> fault + Logger" where
  "DeleteTarget L deleteTarget =
     (let it = std_find (Targets L) deleteTarget in
      if it \<noteq> length (Targets L)
      then if InsertIndex L = INT_MIN then Inl UndefinedBehaviour
           else Inr (L\<lparr>Targets := erase (Targets L) it, InsertIndex := InsertIndex L - 1\<rparr>)
      else Inr L)"

text \<open>The two overloads of \<^verbatim>\<open>SetVerboseLevel\<close>.\<close>

definition SetVerboseLevel :: "Logger \<Rightarrow> int \<Rightarrow> Logger" where
  "SetVerboseLevel L verboseLevel = L\<lparr>VerboseLevel := verboseLevel\<rparr>"

definition SetVerboseLevel_severity :: "Logger \<Rightarrow> SeverityLevels \<Rightarrow> Logger" where
  "SetVerboseLevel_severity L severityLevel = L\<lparr>VerboseLevel := ordinal severityLevel\<rparr>"

text \<open>
  The loop \<^verbatim>\<open>for (target : Targets) (*target)->Log(...)\<close>. An exception thrown by a
  target leaves the loop.
\<close>

fun Log_loop ::
  "env \<Rightarrow> handle list \<Rightarrow> SeverityLevels \<Rightarrow> string \<Rightarrow> heap \<Rightarrow> fault + heap" where
  "Log_loop e [] severityLevel message H = Inr H"
| "Log_loop e (target # rest) severityLevel message H =
     (if length (cells H) \<le> target then Inl UndefinedBehaviour
      else case Target_Log e (cells H ! target) severityLevel message H of
             Inl x \<Rightarrow> Inl x
           | Inr H' \<Rightarrow> Log_loop e rest severityLevel message H')"

definition Log ::
  "env \<Rightarrow> Logger \<Rightarrow> SeverityLevels \<Rightarrow> string \<Rightarrow> heap \<Rightarrow> fault + heap" where
  "Log e L severityLevel message H =
     (if ordinal severityLevel < VerboseLevel L then Inr H
      else Log_loop e (Targets L) severityLevel message H)"

text \<open>\<^verbatim>\<open>Log(std::string_view message)\<close>, the overload without a severity.\<close>

definition Log_message :: "env \<Rightarrow> Logger \<Rightarrow> string \<Rightarrow> heap \<Rightarrow> fault + heap" where
  "Log_message e L message H = Log e L Unknown message H"

text \<open>\<^verbatim>\<open>Logger::SetPrefix\<close>: the same prefix on every registered target.\<close>

fun SetPrefix_loop :: "handle list \<Rightarrow> string \<Rightarrow> heap \<Rightarrow> fault + heap" where
  "SetPrefix_loop [] prefix H = Inr H"
| "SetPrefix_loop (target # rest) prefix H =
     (if length (cells H) \<le> target then Inl UndefinedBehaviour
      else case SetPrefix (cells H ! target) prefix H of
             Inl x \<Rightarrow> Inl x
           | Inr H' \<Rightarrow> SetPrefix_loop rest prefix H')"

definition Logger_SetPrefix :: "Logger \<Rightarrow> string \<Rightarrow> heap \<Rightarrow> fault + heap" where
  "Logger_SetPrefix L prefix H = SetPrefix_loop (Targets L) prefix H"

subsection \<open>Well-formed states\<close>

text \<open>
  A pointer can be logged through when it points to an object, and, for a
  \<^verbatim>\<open>FileTarget\<close>, when a write to the stream of that object does not throw: the stream
  is in the good state, or the sentry leaves a stream that is not good alone.
\<close>

definition target_ok :: "env \<Rightarrow> heap \<Rightarrow> addr \<Rightarrow> bool" where
  "target_ok e H p =
     (case objs H p of
        None \<Rightarrow> False
      | Some (ConsoleTarget t) \<Rightarrow> True
      | Some (FileTarget t f) \<Rightarrow> fs_good f \<or> \<not> sentry_throws e)"

definition targets_ok :: "env \<Rightarrow> Logger \<Rightarrow> heap \<Rightarrow> bool" where
  "targets_ok e L H =
     (\<forall>h \<in> set (Targets L). h < length (cells H) \<and> target_ok e H (cells H ! h))"

text \<open>
  The handles of the sequence are pairwise distinct and are allocated cells of the
  store.
\<close>

definition handles_ok :: "Logger \<Rightarrow> heap \<Rightarrow> bool" where
  "handles_ok L H =
     (distinct (Targets L) \<and> (\<forall>h \<in> set (Targets L). h < length (cells H)))"

text \<open>The render calls that one accepted \<^verbatim>\<open>Log\<close> call makes, in order.\<close>

definition renders ::
  "Logger \<Rightarrow> heap \<Rightarrow> SeverityLevels \<Rightarrow> string \<Rightarrow> (addr \<times> SeverityLevels \<times> string) list" where
  "renders L H severityLevel message =
     map (\<lambda>h. (cells H ! h, severityLevel, message)) (Targets L)"

subsection \<open>The composition of a console line\<close>

text \<open>Segments joined by single spaces.\<close>

fun join :: "string list \<Rightarrow> string" where
  "join [] = []"
| "join [s] = s"
| "join (s # s' # ss) = s @ '' '' @ join (s' # ss)"

text \<open>
  The composition in the words of the specification, to compare the code with: the
  segments that are enabled, in the stated order, each separated from the next by one
  space. \<open>n\<close> is the reading of the clock that the line shows.
\<close>

definition spec_segments ::
  "env \<Rightarrow> Target \<Rightarrow> nat \<Rightarrow> SeverityLevels \<Rightarrow> string \<Rightarrow> string list" where
  "spec_segments e t n severityLevel message =
     (if Prefix t \<noteq> [] then [Prefix t] else []) @
     (if AddColors t \<and> WholeMessageColor t then [SeverityLevelToColor severityLevel] else []) @
     (if AddTime t then [clock e n] else []) @
     [if AddColors t \<and> \<not> WholeMessageColor t
      then SeverityLevelToColor severityLevel @ SeverityLevelToText severityLevel
             @ SeverityLevelToColor_reset
      else SeverityLevelToText severityLevel] @
     (if AddThreadID t then [''['' @ thread_id e @ '']''] else []) @
     [message] @
     (if AddColors t \<and> WholeMessageColor t then [SeverityLevelToColor_reset] else [])"

definition spec_line ::
  "env \<Rightarrow> Target \<Rightarrow> nat \<Rightarrow> SeverityLevels \<Rightarrow> string \<Rightarrow> string" where
  "spec_line e t n severityLevel message = join (spec_segments e t n severityLevel message)"

text \<open>
  The composition as amended. The text segments are the timestamp, the severity tag
  (wrapped in its colour and the reset when colours are on without whole-message colour),
  the thread id in brackets and the message, after the prefix when there is one; they
  are joined by single spaces and ended by a newline. With whole-message colour, the
  colour sequence stands directly before the first segment after the prefix, and the
  reset sequence directly after the newline.
\<close>

definition text_segments ::
  "env \<Rightarrow> Target \<Rightarrow> nat \<Rightarrow> SeverityLevels \<Rightarrow> string \<Rightarrow> string list" where
  "text_segments e t n severityLevel message =
     (if AddTime t then [clock e n] else []) @
     [if AddColors t \<and> \<not> WholeMessageColor t
      then SeverityLevelToColor severityLevel @ SeverityLevelToText severityLevel
             @ SeverityLevelToColor_reset
      else SeverityLevelToText severityLevel] @
     (if AddThreadID t then [''['' @ thread_id e @ '']''] else []) @
     [message]"

definition console_line ::
  "env \<Rightarrow> Target \<Rightarrow> nat \<Rightarrow> SeverityLevels \<Rightarrow> string \<Rightarrow> string" where
  "console_line e t n severityLevel message =
     (if AddColors t \<and> WholeMessageColor t
      then (if Prefix t \<noteq> [] then Prefix t @ '' '' else []) @
           SeverityLevelToColor severityLevel @
           join (text_segments e t n severityLevel message) @ [CHR 0x0A] @
           SeverityLevelToColor_reset
      else join ((if Prefix t \<noteq> [] then [Prefix t] else []) @
                 text_segments e t n severityLevel message) @ [CHR 0x0A])"

subsection \<open>Sequences of registrations and removals\<close>

text \<open>
  A caller's sequence of \<^verbatim>\<open>AddTarget\<close> and \<^verbatim>\<open>DeleteTarget\<close> calls on one logger; the
  handle given to \<^verbatim>\<open>DeleteTarget\<close> is arbitrary. The run stops at the first fault.
\<close>

datatype call = AddTarget_call addr | DeleteTarget_call handle

fun run :: "call list \<Rightarrow> Logger \<Rightarrow> heap \<Rightarrow> fault + Logger \<times> heap" where
  "run [] L H = Inr (L, H)"
| "run (AddTarget_call target # cs) L H =
     (case AddTarget L target H of
        Inl x \<Rightarrow> Inl x
      | Inr (h, L', H') \<Rightarrow> run cs L' H')"
| "run (DeleteTarget_call h # cs) L H =
     (case DeleteTarget L h of
        Inl x \<Rightarrow> Inl x
      | Inr L' \<Rightarrow> run cs L' H)"

text \<open>Registering the targets of a list in order; the handles come back in that order.\<close>

fun AddTargets ::
  "Logger \<Rightarrow> addr list \<Rightarrow> heap \<Rightarrow> fault + handle list \<times> Logger \<times> heap" where
  "AddTargets L [] H = Inr ([], L, H)"
| "AddTargets L (target # rest) H =
     (case AddTarget L target H of
        Inl x \<Rightarrow> Inl x
      | Inr (h, L', H') \<Rightarrow>
          (case AddTargets L' rest H' of
             Inl x \<Rightarrow> Inl x
           | Inr (hs, L'', H'') \<Rightarrow> Inr (h # hs, L'', H'')))"

subsection \<open>Example states\<close>

definition example_env :: env where
  "example_env =
     \<lparr>clock = (\<lambda>n. ''2024-01-01 00:00:00''), thread_id = ''1'', sentry_throws = True\<rparr>"

definition example_heap :: heap where
  "example_heap =
     \<lparr>cells = [10, 11],
      objs = [10 \<mapsto> ConsoleTarget_new True True True True,
              11 \<mapsto> FileTarget_new True ''LogFile.log'' False True True],
      cout = [], clock_reads = 0, rendered = []\<rparr>"

definition example_logger :: Logger where
  "example_logger = \<lparr>VerboseLevel = 2, InsertIndex = 2, Targets = [0, 1]\<rparr>"

text \<open>A console target as constructed by default, with the prefix \<open>[P]\<close>.\<close>

definition example_target :: Target where
  "example_target = Target_SetPrefix ''[P]'' (base (ConsoleTarget_new True True True True))"

section \<open>Properties\<close>

subsection \<open>Vectors\<close>

lemma emplace_end: "emplace v (length v) x = v @ [x]"
  by (simp add: emplace_def)

lemma std_find_le: "std_find v x \<le> length v"
  by (induction v) auto

lemma std_find_end_iff: "std_find v x = length v \<longleftrightarrow> x \<notin> set v"
  by (induction v) auto

lemma std_find_nth: "x \<in> set v \<Longrightarrow> v ! std_find v x = x"
  by (induction v) auto

lemma std_find_first: "x \<notin> set (take (std_find v x) v)"
  by (induction v) auto

lemma erase_std_find: "x \<in> set v \<Longrightarrow> erase v (std_find v x) = remove1 x v"
  by (induction v) (auto simp: erase_def)

subsection \<open>The example states\<close>

lemmas example_defs = example_logger_def example_heap_def example_env_def

lemmas eval_defs = AddTarget_def DeleteTarget_def make_shared_def emplace_def erase_def
  Let_def INT_MAX_def INT_MIN_def

lemma example_targets_ok: "targets_ok example_env example_logger example_heap"
  by (simp add: targets_ok_def example_logger_def example_heap_def target_ok_def
      ConsoleTarget_new_def FileTarget_new_def)

lemma example_InsertIndex: "InsertIndex example_logger = int (length (Targets example_logger))"
  by (simp add: example_logger_def)

lemma example_handles_ok: "handles_ok example_logger example_heap"
  by (simp add: handles_ok_def example_logger_def example_heap_def)

lemma example_target_ok:
  "target_ok example_env example_heap 10" "target_ok example_env example_heap 11"
  by (simp_all add: target_ok_def example_heap_def ConsoleTarget_new_def FileTarget_new_def)

lemma example_renders:
  "renders example_logger example_heap s m = [(10, s, m), (11, s, m)]"
  "rendered example_heap = []"
  by (simp_all add: renders_def example_logger_def example_heap_def)

lemma Logger_new_ok:
  "InsertIndex Logger_new = int (length (Targets Logger_new))" "handles_ok Logger_new H"
  "targets_ok e Logger_new H"
  by (simp_all add: Logger_new_def handles_ok_def targets_ok_def)

subsection \<open>What a render call changes\<close>

lemma ConsoleTarget_Log_eq:
  "ConsoleTarget_Log e t s m H =
     H\<lparr>cout := cout H @ console_line e t (clock_reads H) s m,
       clock_reads := (if AddTime t then Suc (clock_reads H) else clock_reads H)\<rparr>"
  by (cases "Prefix t = []"; cases "AddColors t"; cases "WholeMessageColor t";
      cases "AddTime t"; cases "AddThreadID t";
      simp add: ConsoleTarget_Log_def console_line_def text_segments_def Let_def
        cout_put_def UTCTime_def)

lemma file_put_good: "fs_good f \<Longrightarrow> file_put s f = f\<lparr>fs_data := fs_data f @ s\<rparr>"
  by (simp add: file_put_def)

lemma file_put_not_good: "\<not> fs_good f \<Longrightarrow> file_put s f = f"
  by (simp add: file_put_def)

lemma FileTarget_Log_eq:
  "FileTarget_Log e t f s m H =
     (if \<not> fs_good f \<and> sentry_throws e then Inl ios_failure
      else Inr (if fs_good f
                then f\<lparr>fs_data := fs_data f
                       @ console_line e (t\<lparr>AddColors := False\<rparr>) (clock_reads H) s m\<rparr>
                else f,
                H\<lparr>clock_reads := (if AddTime t then Suc (clock_reads H) else clock_reads H)\<rparr>))"
proof (cases "fs_good f")
  case True
  then show ?thesis
    by (cases "Prefix t = []"; cases "AddTime t"; cases "AddThreadID t";
        simp add: FileTarget_Log_def console_line_def text_segments_def Let_def
          file_put_good UTCTime_def)
next
  case False
  then show ?thesis
    by (simp add: FileTarget_Log_def Let_def file_put_not_good UTCTime_def)
qed

lemma ConsoleTarget_Log_cells [simp]: "cells (ConsoleTarget_Log e t s m H) = cells H"
  by (simp add: ConsoleTarget_Log_eq)

lemma ConsoleTarget_Log_objs [simp]: "objs (ConsoleTarget_Log e t s m H) = objs H"
  by (simp add: ConsoleTarget_Log_eq)

lemma ConsoleTarget_Log_rendered [simp]:
  "rendered (ConsoleTarget_Log e t s m H) = rendered H"
  by (simp add: ConsoleTarget_Log_eq)

lemma FileTarget_Log_Inr:
  "FileTarget_Log e t f s m H = Inr (f', H') \<Longrightarrow>
     (fs_good f \<or> \<not> sentry_throws e) \<and> fs_good f' = fs_good f \<and> cells H' = cells H \<and>
     objs H' = objs H \<and> cout H' = cout H \<and> rendered H' = rendered H"
  by (auto simp: FileTarget_Log_eq split: if_splits)

lemma FileTarget_Log_good:
  "fs_good f \<or> \<not> sentry_throws e \<Longrightarrow> \<exists>f' H'. FileTarget_Log e t f s m H = Inr (f', H')"
  by (auto simp: FileTarget_Log_eq)

lemma Target_Log_Inr:
  assumes "Target_Log e p s m H = Inr H'"
  shows "cells H' = cells H" and "rendered H' = rendered H @ [(p, s, m)]"
    and "target_ok e H' q = target_ok e H q" and "target_ok e H p"
proof -
  obtain obj where obj: "objs H p = Some obj"
    using assms by (cases "objs H p") (simp_all add: Target_Log_def)
  have "cells H' = cells H \<and> rendered H' = rendered H @ [(p, s, m)] \<and>
        target_ok e H' q = target_ok e H q \<and> target_ok e H p"
  proof (cases obj)
    case (ConsoleTarget t)
    with obj assms show ?thesis
      by (auto simp: Target_Log_def target_ok_def)
  next
    case (FileTarget t f)
    with obj assms obtain f' H1 where
      r: "FileTarget_Log e t f s m (H\<lparr>rendered := rendered H @ [(p, s, m)]\<rparr>) = Inr (f', H1)"
      and H': "H' = H1\<lparr>objs := (objs H1)(p \<mapsto> FileTarget t f')\<rparr>"
      by (auto simp: Target_Log_def split: sum.splits)
    from FileTarget_Log_Inr [OF r] obj FileTarget H' show ?thesis
      by (auto simp: target_ok_def)
  qed
  then show "cells H' = cells H" and "rendered H' = rendered H @ [(p, s, m)]"
    and "target_ok e H' q = target_ok e H q" and "target_ok e H p"
    by simp_all
qed

lemma Target_Log_ok:
  assumes "target_ok e H p"
  shows "\<exists>H'. Target_Log e p s m H = Inr H'"
proof (cases "objs H p")
  case None
  with assms show ?thesis by (simp add: target_ok_def)
next
  case (Some obj)
  show ?thesis
  proof (cases obj)
    case (ConsoleTarget t)
    with Some show ?thesis by (simp add: Target_Log_def)
  next
    case (FileTarget t f)
    with Some assms have "fs_good f \<or> \<not> sentry_throws e" by (simp add: target_ok_def)
    from FileTarget_Log_good [OF this]
    obtain f' H' where
      "FileTarget_Log e t f s m (H\<lparr>rendered := rendered H @ [(p, s, m)]\<rparr>) = Inr (f', H')"
      by blast
    with Some FileTarget show ?thesis by (simp add: Target_Log_def)
  qed
qed

subsection \<open>The dispatch loop\<close>

lemma Log_loop_ok:
  assumes "\<forall>h \<in> set hs. h < length (cells H) \<and> target_ok e H (cells H ! h)"
  shows "\<exists>H'. Log_loop e hs s m H = Inr H' \<and> cells H' = cells H \<and>
           rendered H' = rendered H @ map (\<lambda>h. (cells H ! h, s, m)) hs \<and>
           (\<forall>q. target_ok e H' q = target_ok e H q)"
  using assms
proof (induction hs arbitrary: H)
  case Nil
  then show ?case by simp
next
  case (Cons h hs)
  then have h: "h < length (cells H)" "target_ok e H (cells H ! h)" by simp_all
  from Target_Log_ok [OF h(2)] obtain H1 where
    H1: "Target_Log e (cells H ! h) s m H = Inr H1" by blast
  note fr = Target_Log_Inr [OF H1]
  have "\<forall>k \<in> set hs. k < length (cells H1) \<and> target_ok e H1 (cells H1 ! k)"
    using Cons.prems by (simp add: fr)
  from Cons.IH [OF this] obtain H2 where
    H2: "Log_loop e hs s m H1 = Inr H2" "cells H2 = cells H1"
      "rendered H2 = rendered H1 @ map (\<lambda>h. (cells H1 ! h, s, m)) hs"
      "\<forall>q. target_ok e H2 q = target_ok e H1 q" by blast
  show ?case using h H1 H2 by (simp add: fr)
qed

lemma Log_accepted:
  assumes "targets_ok e L H" and "VerboseLevel L \<le> ordinal s"
  shows "\<exists>H'. Log e L s m H = Inr H' \<and> rendered H' = rendered H @ renders L H s m"
proof -
  from assms(1) have "\<forall>h \<in> set (Targets L). h < length (cells H) \<and> target_ok e H (cells H ! h)"
    by (simp add: targets_ok_def)
  from Log_loop_ok [OF this, where s = s and m = m] assms(2) show ?thesis
    by (auto simp: Log_def renders_def)
qed

lemma Log_dropped: "ordinal s < VerboseLevel L \<Longrightarrow> Log e L s m H = Inr H"
  by (simp add: Log_def)

subsection \<open>The verbosity filter\<close>

text \<open>
  C1. With the threshold of the logger fixed, a \<^verbatim>\<open>Log(severity, message)\<close> call on a
  logger whose registered targets can be logged through returns normally; if the ordinal
  of the severity is at least the threshold, it makes one render call on every registered
  target, and if the ordinal is below the threshold it leaves the whole store as it was,
  so no target receives the message. With at least one target registered, the targets
  are rendered to if and only if the ordinal is at least the threshold.
\<close>

theorem Log_filter:
  assumes "targets_ok e L H"
  shows "\<exists>H'. Log e L severity msg H = Inr H' \<and>
           (VerboseLevel L \<le> ordinal severity \<longrightarrow>
              rendered H' = rendered H @ renders L H severity msg) \<and>
           (ordinal severity < VerboseLevel L \<longrightarrow> H' = H) \<and>
           (Targets L \<noteq> [] \<longrightarrow>
              (rendered H' = rendered H @ renders L H severity msg
                 \<longleftrightarrow> VerboseLevel L \<le> ordinal severity))"
proof (cases "VerboseLevel L \<le> ordinal severity")
  case True
  from Log_accepted [OF assms True, where m = msg] show ?thesis
    using True by auto
next
  case False
  then have "Log e L severity msg H = Inr H"
    by (simp add: Log_dropped)
  with False show ?thesis
    by (auto simp: renders_def)
qed

theorem Log_filter_witness:
  "targets_ok example_env example_logger example_heap \<and>
   VerboseLevel example_logger \<le> ordinal Error \<and>
   ordinal Info < VerboseLevel example_logger \<and>
   Targets example_logger \<noteq> [] \<and>
   (\<exists>H'. Log example_env example_logger Error ''x'' example_heap = Inr H' \<and>
      rendered H' = [(10, Error, ''x''), (11, Error, ''x'')]) \<and>
   Log example_env example_logger Info ''x'' example_heap = Inr example_heap"
proof -
  have ok: "targets_ok example_env example_logger example_heap"
    by (rule example_targets_ok)
  have v: "VerboseLevel example_logger = 2" "Targets example_logger = [0, 1]"
    by (simp_all add: example_logger_def)
  have r: "renders example_logger example_heap Error ''x'' = [(10, Error, ''x''), (11, Error, ''x'')]"
    "rendered example_heap = []"
    by (simp_all add: renders_def example_logger_def example_heap_def)
  from Log_filter [OF ok, where severity = Error and msg = "''x''"]
  have a: "\<exists>H'. Log example_env example_logger Error ''x'' example_heap = Inr H' \<and>
      rendered H' = [(10, Error, ''x''), (11, Error, ''x'')]"
    by (simp add: v r)
  from Log_filter [OF ok, where severity = Info and msg = "''x''"]
  have b: "Log example_env example_logger Info ''x'' example_heap = Inr example_heap"
    by (auto simp: v)
  from ok a b show ?thesis by (simp add: v)
qed

subsection \<open>Messages without a severity\<close>

lemma ordinal_le_Unknown: "ordinal s \<le> ordinal Unknown"
  by (cases s) simp_all

lemma renders_SetVerboseLevel [simp]:
  "renders (SetVerboseLevel L v) H s m = renders L H s m"
  "renders (SetVerboseLevel_severity L t) H s m = renders L H s m"
  by (simp_all add: renders_def SetVerboseLevel_def SetVerboseLevel_severity_def)

lemma targets_ok_SetVerboseLevel [simp]:
  "targets_ok e (SetVerboseLevel L v) H = targets_ok e L H"
  "targets_ok e (SetVerboseLevel_severity L t) H = targets_ok e L H"
  by (simp_all add: targets_ok_def SetVerboseLevel_def SetVerboseLevel_severity_def)

text \<open>
  C2, as stated, fails: after \<^verbatim>\<open>SetVerboseLevel(6)\<close> through the overload taking an
  \<^verbatim>\<open>int\<close>, a \<^verbatim>\<open>Log(message)\<close> call without a severity returns with the store
  unchanged, although two targets are registered and could be logged through: the
  message of severity \<open>Unknown\<close> is filtered out.
\<close>

theorem Log_message_dropped_counterexample:
  "targets_ok example_env (SetVerboseLevel example_logger 6) example_heap \<and>
   Targets (SetVerboseLevel example_logger 6) = [0, 1] \<and>
   Log_message example_env (SetVerboseLevel example_logger 6) ''msg'' example_heap
     = Inr example_heap \<and>
   \<not> (\<exists>H'. Log_message example_env (SetVerboseLevel example_logger 6) ''msg'' example_heap
              = Inr H' \<and>
            rendered H' = rendered example_heap
              @ renders (SetVerboseLevel example_logger 6) example_heap Unknown ''msg'')"
proof -
  have 1: "Log_message example_env (SetVerboseLevel example_logger 6) ''msg'' example_heap
     = Inr example_heap"
    by (simp add: Log_message_def Log_def SetVerboseLevel_def)
  have 2: "rendered example_heap \<noteq> rendered example_heap
              @ renders (SetVerboseLevel example_logger 6) example_heap Unknown ''msg''"
    by (simp add: renders_def example_logger_def SetVerboseLevel_def)
  have 3: "Targets (SetVerboseLevel example_logger 6) = [0, 1]"
    by (simp add: SetVerboseLevel_def example_logger_def)
  from 1 2 3 example_targets_ok show ?thesis by simp
qed

text \<open>
  C2, amended. A \<^verbatim>\<open>Log(message)\<close> call without a severity is the call with severity
  \<open>Unknown\<close>, whose ordinal is 5. On a logger whose registered targets can be logged
  through, it is rendered by every registered target after the threshold was set through
  the overload taking a \<^verbatim>\<open>SeverityLevels\<close> value, whatever the value; after the threshold
  was set to \<open>v\<close> through the overload taking an \<^verbatim>\<open>int\<close>, it is rendered by every
  registered target when \<open>v \<le> 5\<close> and is dropped, the store unchanged, when \<open>v > 5\<close>.
\<close>

theorem Log_message_Unknown:
  assumes "targets_ok e L H"
  shows "Log_message e L msg H = Log e L Unknown msg H \<and> ordinal Unknown = 5 \<and>
    (\<exists>H'. Log_message e (SetVerboseLevel_severity L s) msg H = Inr H' \<and>
        rendered H' = rendered H @ renders L H Unknown msg) \<and>
    (\<exists>H'. Log_message e (SetVerboseLevel L v) msg H = Inr H' \<and>
        (if v \<le> 5 then rendered H' = rendered H @ renders L H Unknown msg else H' = H))"
proof -
  have a: "\<exists>H'. Log_message e (SetVerboseLevel_severity L s) msg H = Inr H' \<and>
        rendered H' = rendered H @ renders L H Unknown msg"
    using Log_accepted [where L = "SetVerboseLevel_severity L s" and H = H and s = Unknown
        and e = e and m = msg] assms
      ordinal_le_Unknown [of s]
    by (simp add: Log_message_def) (simp add: SetVerboseLevel_severity_def)
  have b: "\<exists>H'. Log_message e (SetVerboseLevel L v) msg H = Inr H' \<and>
        (if v \<le> 5 then rendered H' = rendered H @ renders L H Unknown msg else H' = H)"
  proof (cases "v \<le> 5")
    case True
    then have "VerboseLevel (SetVerboseLevel L v) \<le> ordinal Unknown"
      by (simp add: SetVerboseLevel_def)
    from Log_accepted [OF _ this, where H = H and e = e and m = msg] assms True show ?thesis
      by (simp add: Log_message_def)
  next
    case False
    then have "ordinal Unknown < VerboseLevel (SetVerboseLevel L v)"
      by (simp add: SetVerboseLevel_def)
    from Log_dropped [OF this] False show ?thesis
      by (simp add: Log_message_def)
  qed
  from a b show ?thesis by (simp add: Log_message_def)
qed

theorem Log_message_Unknown_witness:
  "targets_ok example_env example_logger example_heap \<and>
   (\<exists>H'. Log_message example_env (SetVerboseLevel_severity example_logger Failure) ''msg''
            example_heap = Inr H' \<and>
      rendered H' = [(10, Unknown, ''msg''), (11, Unknown, ''msg'')]) \<and>
   (\<exists>H'. Log_message example_env (SetVerboseLevel example_logger 5) ''msg''
            example_heap = Inr H' \<and>
      rendered H' = [(10, Unknown, ''msg''), (11, Unknown, ''msg'')])"
proof -
  have r: "renders example_logger example_heap Unknown ''msg''
             = [(10, Unknown, ''msg''), (11, Unknown, ''msg'')]"
    "rendered example_heap = []"
    by (simp_all add: renders_def example_logger_def example_heap_def)
  from Log_message_Unknown [OF example_targets_ok, where msg = "''msg''" and s = Failure
      and v = 5]
  show ?thesis
    using example_targets_ok by (simp add: r)
qed

subsection \<open>Registration and removal\<close>

lemma emplace_nth: "i \<le> length v \<Longrightarrow> emplace v i x ! i = x"
  by (simp add: emplace_def nth_append)

lemma emplace_length [simp]: "length (emplace v i x) = Suc (length v)"
  by (simp add: emplace_def)

lemma emplace_set: "i \<le> length v \<Longrightarrow> set (emplace v i x) = insert x (set v)"
proof -
  have "set (take i v) \<union> set (drop i v) = set v"
    by (metis append_take_drop_id set_append)
  then show ?thesis by (auto simp: emplace_def)
qed

lemma emplace_distinct:
  assumes "distinct v" and "x \<notin> set v"
  shows "distinct (emplace v i x)"
proof -
  have "distinct (take i v) \<and> distinct (drop i v) \<and> set (take i v) \<inter> set (drop i v) = {}"
    using assms(1) by (metis append_take_drop_id distinct_append)
  moreover have "x \<notin> set (take i v)" "x \<notin> set (drop i v)"
    using assms(2) by (auto dest: in_set_takeD in_set_dropD)
  ultimately show ?thesis by (auto simp: emplace_def)
qed

lemma AddTarget_Inr:
  assumes "AddTarget L t H = Inr (h, L1, H1)"
  shows "h = length (cells H)" and "H1 = H\<lparr>cells := cells H @ [t]\<rparr>"
    and "0 \<le> InsertIndex L" and "InsertIndex L \<le> int (length (Targets L))"
    and "InsertIndex L \<noteq> INT_MAX"
    and "L1 = L\<lparr>InsertIndex := InsertIndex L + 1,
                 Targets := emplace (Targets L) (nat (InsertIndex L)) h\<rparr>"
  using assms
  by (auto simp: AddTarget_def make_shared_def Let_def emplace_nth INT_MAX_def split: if_splits)

lemma AddTarget_append:
  assumes "InsertIndex L = int (length (Targets L))" and "int (length (Targets L)) < INT_MAX"
  shows "AddTarget L t H =
           Inr (length (cells H),
                L\<lparr>InsertIndex := InsertIndex L + 1, Targets := Targets L @ [length (cells H)]\<rparr>,
                H\<lparr>cells := cells H @ [t]\<rparr>)"
  using assms
  by (simp add: AddTarget_def make_shared_def Let_def emplace_end)

lemma DeleteTarget_absent: "h \<notin> set (Targets L) \<Longrightarrow> DeleteTarget L h = Inr L"
  by (simp add: DeleteTarget_def std_find_end_iff)

lemma DeleteTarget_present:
  assumes "h \<in> set (Targets L)" and "INT_MIN < InsertIndex L"
  shows "DeleteTarget L h =
           Inr (L\<lparr>Targets := remove1 h (Targets L), InsertIndex := InsertIndex L - 1\<rparr>)"
  using assms
  by (simp add: DeleteTarget_def std_find_end_iff erase_std_find)

lemma DeleteTarget_Inr:
  assumes "DeleteTarget L h = Inr L'"
  shows "L' = (if h \<in> set (Targets L)
               then L\<lparr>Targets := remove1 h (Targets L), InsertIndex := InsertIndex L - 1\<rparr>
               else L)"
  using assms
  by (auto simp: DeleteTarget_def std_find_end_iff erase_std_find Let_def split: if_splits)

lemma remove1_split_first:
  "x \<in> set v \<Longrightarrow> \<exists>pre post. v = pre @ x # post \<and> x \<notin> set pre \<and> remove1 x v = pre @ post"
proof (induction v)
  case Nil
  then show ?case by simp
next
  case (Cons y v)
  show ?case
  proof (cases "y = x")
    case True
    then have "y # v = [] @ x # v \<and> x \<notin> set [] \<and> remove1 x (y # v) = [] @ v" by simp
    then show ?thesis by blast
  next
    case False
    with Cons obtain pre post where "v = pre @ x # post" "x \<notin> set pre" "remove1 x v = pre @ post"
      by auto
    with False have "y # v = (y # pre) @ x # post \<and> x \<notin> set (y # pre)
        \<and> remove1 x (y # v) = (y # pre) @ post" by auto
    then show ?thesis by blast
  qed
qed

lemma length_remove1_int:
  "x \<in> set v \<Longrightarrow> int (length (remove1 x v)) = int (length v) - 1"
  using length_pos_if_in_set [of x v] by (simp add: length_remove1 of_nat_diff Suc_leI)

lemma filter_absent: "d \<notin> set v \<Longrightarrow> filter (\<lambda>x. x \<noteq> d) v = v"
  by (induction v) auto

lemma remove1_filter_distinct:
  "distinct v \<Longrightarrow> remove1 d v = filter (\<lambda>x. x \<noteq> d) v"
  by (induction v) (auto simp: filter_absent)

lemma InsertIndex_AddTarget:
  assumes "InsertIndex L = int (length (Targets L))" and "AddTarget L t H = Inr (h, L1, H1)"
  shows "InsertIndex L1 = int (length (Targets L1))" and "Targets L1 = Targets L @ [h]"
  using AddTarget_Inr [OF assms(2)] assms(1) by (simp_all add: emplace_end)

lemma InsertIndex_DeleteTarget:
  assumes "InsertIndex L = int (length (Targets L))" and "DeleteTarget L d = Inr L2"
  shows "InsertIndex L2 = int (length (Targets L2))"
proof (cases "d \<in> set (Targets L)")
  case True
  with assms DeleteTarget_Inr [OF assms(2)] show ?thesis
    by (simp add: length_remove1_int)
next
  case False
  with assms DeleteTarget_Inr [OF assms(2)] show ?thesis by simp
qed

lemma run_InsertIndex:
  assumes "InsertIndex L = int (length (Targets L))" and "run cs L H = Inr (L', H')"
  shows "InsertIndex L' = int (length (Targets L'))"
  using assms
proof (induction cs L H rule: run.induct)
  case (1 L H)
  then show ?case by simp
next
  case (2 target cs L H)
  from "2.prems"(2) obtain h L1 H1 where
    a: "AddTarget L target H = Inr (h, L1, H1)" and r: "run cs L1 H1 = Inr (L', H')"
    by (auto split: sum.splits)
  from InsertIndex_AddTarget(1) [OF "2.prems"(1) a] "2.IH" a r show ?case
    by simp
next
  case (3 h cs L H)
  from "3.prems"(2) obtain L1 where
    d: "DeleteTarget L h = Inr L1" and r: "run cs L1 H = Inr (L', H')"
    by (auto split: sum.splits)
  from InsertIndex_DeleteTarget [OF "3.prems"(1) d] "3.IH" d r show ?case
    by simp
qed

lemma DeleteTarget_total:
  assumes "InsertIndex L = int (length (Targets L))"
  shows "\<exists>L2. DeleteTarget L d = Inr L2 \<and> length (Targets L2) \<le> length (Targets L)"
proof (cases "d \<in> set (Targets L)")
  case True
  have "INT_MIN < InsertIndex L" using assms by (simp add: INT_MIN_def)
  from DeleteTarget_present [OF True this] show ?thesis
    by (simp add: length_remove1)
next
  case False
  then show ?thesis by (simp add: DeleteTarget_absent)
qed

lemma run_total:
  assumes "InsertIndex L = int (length (Targets L))"
    and "int (length (Targets L)) + int (length cs) \<le> INT_MAX"
  shows "\<exists>L' H'. run cs L H = Inr (L', H')"
  using assms
proof (induction cs L H rule: run.induct)
  case (1 L H)
  then show ?case by simp
next
  case (2 target cs L H)
  from "2.prems" have lt: "int (length (Targets L)) < INT_MAX" by simp
  note a = AddTarget_append [OF "2.prems"(1) lt, of target H]
  have "\<exists>L' H'. run cs (L\<lparr>InsertIndex := InsertIndex L + 1,
            Targets := Targets L @ [length (cells H)]\<rparr>) (H\<lparr>cells := cells H @ [target]\<rparr>)
          = Inr (L', H')"
    using "2.prems" by (intro "2.IH" [OF a]) simp_all
  with a show ?case by simp
next
  case (3 h cs L H)
  from DeleteTarget_total [OF "3.prems"(1), of h] obtain L2 where
    d: "DeleteTarget L h = Inr L2" and le: "length (Targets L2) \<le> length (Targets L)" by blast
  have "\<exists>L' H'. run cs L2 H = Inr (L', H')"
    using "3.prems" le InsertIndex_DeleteTarget [OF "3.prems"(1) d]
    by (intro "3.IH" [OF d]) simp_all
  with d show ?case by simp
qed

text \<open>
  C9. \<open>InsertIndex\<close> equals the size of \<open>Targets\<close> after every sequence of
  \<^verbatim>\<open>AddTarget\<close> and \<^verbatim>\<open>DeleteTarget\<close> calls that starts in a state where it holds (a new
  logger is one), and such a sequence runs without a fault while the size stays within
  \<open>INT_MAX\<close>. \<^verbatim>\<open>AddTarget\<close> increments both and its insertion at \<open>InsertIndex\<close> is an
  append at the end; the handle it returns is the newly made cell, which holds the
  pointer given. \<^verbatim>\<open>DeleteTarget\<close> decrements both exactly when an entry is erased, and
  changes nothing otherwise.
\<close>

theorem InsertIndex_invariant:
  assumes "InsertIndex L = int (length (Targets L))"
  shows "(run cs L H = Inr (L', H') \<longrightarrow> InsertIndex L' = int (length (Targets L'))) \<and>
         (int (length (Targets L)) + int (length cs) \<le> INT_MAX \<longrightarrow>
            (\<exists>L'' H''. run cs L H = Inr (L'', H''))) \<and>
         (AddTarget L t H = Inr (h, L1, H1) \<longrightarrow>
            Targets L1 = Targets L @ [h] \<and> InsertIndex L1 = InsertIndex L + 1 \<and>
            length (Targets L1) = length (Targets L) + 1 \<and>
            h = fst (make_shared t H) \<and> cells H1 ! h = t) \<and>
         (DeleteTarget L d = Inr L2 \<longrightarrow>
            (if d \<in> set (Targets L)
             then InsertIndex L2 = InsertIndex L - 1 \<and>
                  int (length (Targets L2)) = int (length (Targets L)) - 1
             else L2 = L))"
proof -
  have 1: "run cs L H = Inr (L', H') \<longrightarrow> InsertIndex L' = int (length (Targets L'))"
    using run_InsertIndex [OF assms] by blast
  have 2: "int (length (Targets L)) + int (length cs) \<le> INT_MAX \<longrightarrow>
            (\<exists>L'' H''. run cs L H = Inr (L'', H''))"
    using run_total [OF assms] by blast
  have 3: "Targets L1 = Targets L @ [h] \<and> InsertIndex L1 = InsertIndex L + 1 \<and>
            length (Targets L1) = length (Targets L) + 1 \<and>
            h = fst (make_shared t H) \<and> cells H1 ! h = t"
    if a: "AddTarget L t H = Inr (h, L1, H1)"
    using InsertIndex_AddTarget [OF assms a] AddTarget_Inr [OF a]
    by (simp add: make_shared_def)
  have 4: "if d \<in> set (Targets L)
             then InsertIndex L2 = InsertIndex L - 1 \<and>
                  int (length (Targets L2)) = int (length (Targets L)) - 1
             else L2 = L"
    if d: "DeleteTarget L d = Inr L2"
    using DeleteTarget_Inr [OF d] by (simp add: length_remove1_int)
  from 1 2 3 4 show ?thesis by blast
qed

theorem InsertIndex_invariant_witness:
  "InsertIndex example_logger = int (length (Targets example_logger)) \<and>
   int (length (Targets example_logger)) + int (length
      [AddTarget_call 10, DeleteTarget_call 0, DeleteTarget_call 0, AddTarget_call 11])
     \<le> INT_MAX \<and>
   run [AddTarget_call 10, DeleteTarget_call 0, DeleteTarget_call 0, AddTarget_call 11]
       example_logger example_heap
     = Inr (\<lparr>VerboseLevel = 2, InsertIndex = 3, Targets = [1, 2, 3]\<rparr>,
            example_heap\<lparr>cells := [10, 11, 10, 11]\<rparr>) \<and>
   InsertIndex \<lparr>VerboseLevel = 2, InsertIndex = 3, Targets = [1, 2, 3]\<rparr>
     = int (length (Targets \<lparr>VerboseLevel = 2, InsertIndex = 3, Targets = [1, 2, 3]\<rparr>)) \<and>
   AddTarget example_logger 10 example_heap
     = Inr (2, \<lparr>VerboseLevel = 2, InsertIndex = 3, Targets = [0, 1, 2]\<rparr>,
            example_heap\<lparr>cells := [10, 11, 10]\<rparr>) \<and>
   2 = fst (make_shared 10 example_heap) \<and>
   DeleteTarget example_logger 1 = Inr \<lparr>VerboseLevel = 2, InsertIndex = 1, Targets = [0]\<rparr> \<and>
   DeleteTarget example_logger 7 = Inr example_logger"
proof -
  have r: "run [AddTarget_call 10, DeleteTarget_call 0, DeleteTarget_call 0, AddTarget_call 11]
       example_logger example_heap
     = Inr (\<lparr>VerboseLevel = 2, InsertIndex = 3, Targets = [1, 2, 3]\<rparr>,
            example_heap\<lparr>cells := [10, 11, 10, 11]\<rparr>)"
    by (simp add: eval_defs example_defs)
  have a: "AddTarget example_logger 10 example_heap
     = Inr (2, \<lparr>VerboseLevel = 2, InsertIndex = 3, Targets = [0, 1, 2]\<rparr>,
            example_heap\<lparr>cells := [10, 11, 10]\<rparr>)"
    by (simp add: eval_defs example_defs)
  have d: "DeleteTarget example_logger 1 = Inr \<lparr>VerboseLevel = 2, InsertIndex = 1, Targets = [0]\<rparr>"
    "DeleteTarget example_logger 7 = Inr example_logger"
    by (simp_all add: eval_defs example_defs)
  have b: "int (length (Targets example_logger)) + int (length
      [AddTarget_call 10, DeleteTarget_call 0, DeleteTarget_call 0, AddTarget_call 11])
     \<le> INT_MAX"
    by (simp add: INT_MAX_def example_logger_def)
  from InsertIndex_invariant [OF example_InsertIndex,
      where cs = "[AddTarget_call 10, DeleteTarget_call 0, DeleteTarget_call 0, AddTarget_call 11]"
        and H = example_heap
        and L' = "\<lparr>VerboseLevel = 2, InsertIndex = 3, Targets = [1, 2, 3]\<rparr>"
        and H' = "example_heap\<lparr>cells := [10, 11, 10, 11]\<rparr>"
        and t = 10 and h = 2
        and ?L1.0 = "\<lparr>VerboseLevel = 2, InsertIndex = 3, Targets = [0, 1, 2]\<rparr>"
        and ?H1.0 = "example_heap\<lparr>cells := [10, 11, 10]\<rparr>"
        and d = 1 and ?L2.0 = "\<lparr>VerboseLevel = 2, InsertIndex = 1, Targets = [0]\<rparr>"]
    r a d b example_InsertIndex
  show ?thesis by simp
qed

lemma handles_ok_AddTarget:
  assumes "handles_ok L H" and "AddTarget L t H = Inr (h, L1, H1)"
  shows "h \<notin> set (Targets L)" and "handles_ok L1 H1"
proof -
  note a = AddTarget_Inr [OF assms(2)]
  from assms(1) a(1) show fresh: "h \<notin> set (Targets L)"
    by (auto simp: handles_ok_def)
  have i: "nat (InsertIndex L) \<le> length (Targets L)" using a(3,4) by simp
  from assms(1) fresh have "distinct (emplace (Targets L) (nat (InsertIndex L)) h)"
    by (simp add: emplace_distinct handles_ok_def)
  moreover have "\<forall>k \<in> set (emplace (Targets L) (nat (InsertIndex L)) h). k < length (cells H1)"
    using assms(1) a(1,2) by (auto simp: emplace_set [OF i] handles_ok_def)
  ultimately show "handles_ok L1 H1"
    using a(6) by (simp add: handles_ok_def)
qed

lemma handles_ok_DeleteTarget:
  assumes "handles_ok L H" and "DeleteTarget L d = Inr L2"
  shows "handles_ok L2 H" and "Targets L2 = filter (\<lambda>x. x \<noteq> d) (Targets L)"
proof -
  from assms(1) have dist: "distinct (Targets L)" by (simp add: handles_ok_def)
  have "remove1 d (Targets L) = filter (\<lambda>x. x \<noteq> d) (Targets L)"
    using dist by (rule remove1_filter_distinct)
  moreover have "d \<notin> set (Targets L) \<Longrightarrow> filter (\<lambda>x. x \<noteq> d) (Targets L) = Targets L"
    by (rule filter_absent)
  ultimately show t: "Targets L2 = filter (\<lambda>x. x \<noteq> d) (Targets L)"
    using DeleteTarget_Inr [OF assms(2)] by (auto split: if_splits)
  from assms(1) show "handles_ok L2 H"
    by (auto simp: handles_ok_def t)
qed

lemma run_handles_ok:
  assumes "handles_ok L H" and "run cs L H = Inr (L', H')"
  shows "handles_ok L' H'"
  using assms
proof (induction cs L H rule: run.induct)
  case (1 L H)
  then show ?case by simp
next
  case (2 target cs L H)
  from "2.prems"(2) obtain h L1 H1 where
    a: "AddTarget L target H = Inr (h, L1, H1)" and r: "run cs L1 H1 = Inr (L', H')"
    by (auto split: sum.splits)
  from handles_ok_AddTarget(2) [OF "2.prems"(1) a] "2.IH" a r show ?case
    by simp
next
  case (3 h cs L H)
  from "3.prems"(2) obtain L1 where
    d: "DeleteTarget L h = Inr L1" and r: "run cs L1 H = Inr (L', H')"
    by (auto split: sum.splits)
  from handles_ok_DeleteTarget(1) [OF "3.prems"(1) d] "3.IH" d r show ?case
    by simp
qed

lemma run_from_new:
  assumes "run cs Logger_new H = Inr (L, H')"
  shows "InsertIndex L = int (length (Targets L))" and "handles_ok L H'"
  using run_InsertIndex [OF Logger_new_ok(1) assms] run_handles_ok [OF Logger_new_ok(2) assms]
  by simp_all

lemma handles_ok_grow: "handles_ok L H \<Longrightarrow> handles_ok L (H\<lparr>cells := cells H @ xs\<rparr>)"
  by (auto simp: handles_ok_def)

text \<open>
  C10. In a state whose handles are pairwise distinct and allocated, the handle that a
  registration creates differs from every handle of the sequence, whichever pointer is
  registered, and the sequence stays pairwise distinct, also after any run of
  registrations and removals. \<^verbatim>\<open>DeleteTarget\<close> of \<open>d\<close> keeps every entry other than
  \<open>d\<close>, in order, and removes at most one entry.
\<close>

theorem handles_fresh:
  assumes "handles_ok L H"
  shows "(AddTarget L t H = Inr (h, L1, H1) \<longrightarrow>
            h \<notin> set (Targets L) \<and> distinct (Targets L1) \<and> handles_ok L1 H1) \<and>
         (DeleteTarget L d = Inr L2 \<longrightarrow>
            Targets L2 = filter (\<lambda>x. x \<noteq> d) (Targets L) \<and>
            length (Targets L) \<le> length (Targets L2) + 1 \<and> handles_ok L2 H) \<and>
         (run cs L H = Inr (L', H') \<longrightarrow> distinct (Targets L') \<and> handles_ok L' H')"
proof -
  have 1: "h \<notin> set (Targets L) \<and> distinct (Targets L1) \<and> handles_ok L1 H1"
    if a: "AddTarget L t H = Inr (h, L1, H1)"
    using handles_ok_AddTarget [OF assms a] by (simp add: handles_ok_def)
  have 2: "Targets L2 = filter (\<lambda>x. x \<noteq> d) (Targets L) \<and>
            length (Targets L) \<le> length (Targets L2) + 1 \<and> handles_ok L2 H"
    if d: "DeleteTarget L d = Inr L2"
  proof -
    have "length (Targets L) \<le> length (Targets L2) + 1"
      using DeleteTarget_Inr [OF d] by (auto simp: length_remove1)
    with handles_ok_DeleteTarget [OF assms d] show ?thesis by simp
  qed
  have 3: "distinct (Targets L') \<and> handles_ok L' H'" if r: "run cs L H = Inr (L', H')"
    using run_handles_ok [OF assms r] by (simp add: handles_ok_def)
  from 1 2 3 show ?thesis by blast
qed

theorem handles_fresh_witness:
  "handles_ok example_logger example_heap \<and>
   AddTarget example_logger 10 example_heap
     = Inr (2, \<lparr>VerboseLevel = 2, InsertIndex = 3, Targets = [0, 1, 2]\<rparr>,
            example_heap\<lparr>cells := [10, 11, 10]\<rparr>) \<and>
   2 \<notin> set (Targets example_logger) \<and>
   distinct [0, 1, 2 :: nat] \<and>
   DeleteTarget example_logger 1 = Inr \<lparr>VerboseLevel = 2, InsertIndex = 1, Targets = [0]\<rparr> \<and>
   run [AddTarget_call 10, DeleteTarget_call 0, DeleteTarget_call 0, AddTarget_call 11]
       example_logger example_heap
     = Inr (\<lparr>VerboseLevel = 2, InsertIndex = 3, Targets = [1, 2, 3]\<rparr>,
            example_heap\<lparr>cells := [10, 11, 10, 11]\<rparr>) \<and>
   handles_ok \<lparr>VerboseLevel = 2, InsertIndex = 3, Targets = [1, 2, 3]\<rparr>
     (example_heap\<lparr>cells := [10, 11, 10, 11]\<rparr>)"
proof -
  have r: "run [AddTarget_call 10, DeleteTarget_call 0, DeleteTarget_call 0, AddTarget_call 11]
       example_logger example_heap
     = Inr (\<lparr>VerboseLevel = 2, InsertIndex = 3, Targets = [1, 2, 3]\<rparr>,
            example_heap\<lparr>cells := [10, 11, 10, 11]\<rparr>)"
    by (simp add: eval_defs example_defs)
  have a: "AddTarget example_logger 10 example_heap
     = Inr (2, \<lparr>VerboseLevel = 2, InsertIndex = 3, Targets = [0, 1, 2]\<rparr>,
            example_heap\<lparr>cells := [10, 11, 10]\<rparr>)"
    by (simp add: eval_defs example_defs)
  have d: "DeleteTarget example_logger 1 = Inr \<lparr>VerboseLevel = 2, InsertIndex = 1, Targets = [0]\<rparr>"
    by (simp add: eval_defs example_defs)
  from handles_fresh [OF example_handles_ok,
      where cs = "[AddTarget_call 10, DeleteTarget_call 0, DeleteTarget_call 0, AddTarget_call 11]"
        and L' = "\<lparr>VerboseLevel = 2, InsertIndex = 3, Targets = [1, 2, 3]\<rparr>"
        and H' = "example_heap\<lparr>cells := [10, 11, 10, 11]\<rparr>"
        and t = 10 and h = 2
        and ?L1.0 = "\<lparr>VerboseLevel = 2, InsertIndex = 3, Targets = [0, 1, 2]\<rparr>"
        and ?H1.0 = "example_heap\<lparr>cells := [10, 11, 10]\<rparr>"
        and d = 1 and ?L2.0 = "\<lparr>VerboseLevel = 2, InsertIndex = 1, Targets = [0]\<rparr>"]
    r a d example_handles_ok
  show ?thesis by simp
qed

text \<open>
  C4. In a state where \<open>InsertIndex\<close> is the size of the sequence and the handles are
  distinct and allocated (every state reached from a new logger), with room for one more
  entry, \<open>h = AddTarget(t)\<close> followed by \<open>DeleteTarget(h)\<close> gives back the logger as it
  was before: the same sequence in the same order, the same \<open>InsertIndex\<close> and
  threshold.
\<close>

theorem AddTarget_DeleteTarget:
  assumes "InsertIndex L = int (length (Targets L))" and "handles_ok L H"
    and "int (length (Targets L)) < INT_MAX"
  shows "\<exists>h L1 H1. AddTarget L t H = Inr (h, L1, H1) \<and> DeleteTarget L1 h = Inr L"
proof -
  let ?h = "length (cells H)"
  let ?L1 = "L\<lparr>InsertIndex := InsertIndex L + 1, Targets := Targets L @ [?h]\<rparr>"
  note a = AddTarget_append [OF assms(1,3), of t H]
  from assms(2) have fresh: "?h \<notin> set (Targets L)" by (auto simp: handles_ok_def)
  have "INT_MIN < InsertIndex ?L1" using assms(1) by (simp add: INT_MIN_def)
  from DeleteTarget_present [OF _ this, of ?h] fresh
  have "DeleteTarget ?L1 ?h = Inr L"
    by (simp add: remove1_append)
  with a show ?thesis by blast
qed

theorem AddTarget_DeleteTarget_witness:
  "InsertIndex example_logger = int (length (Targets example_logger)) \<and>
   handles_ok example_logger example_heap \<and>
   int (length (Targets example_logger)) < INT_MAX \<and>
   (\<exists>h L1 H1. AddTarget example_logger 10 example_heap = Inr (h, L1, H1) \<and>
      DeleteTarget L1 h = Inr example_logger)"
proof -
  have b: "int (length (Targets example_logger)) < INT_MAX"
    by (simp add: INT_MAX_def example_logger_def)
  from AddTarget_DeleteTarget [OF example_InsertIndex example_handles_ok b, of 10]
    example_InsertIndex example_handles_ok b
  show ?thesis by simp
qed

text \<open>
  C5. \<^verbatim>\<open>DeleteTarget(h)\<close> returns normally. When \<open>h\<close> is in the sequence it removes the
  first entry equal to \<open>h\<close>: the sequence splits as \<open>pre @ h # post\<close> with \<open>h\<close> not in
  \<open>pre\<close>, and becomes \<open>pre @ post\<close>. When \<open>h\<close> is not in the sequence, the logger is
  unchanged. With pairwise distinct handles, as in every state reached from a new
  logger, calling it twice gives the same logger as calling it once.
\<close>

theorem DeleteTarget_first_idempotent:
  assumes "InsertIndex L = int (length (Targets L))"
  shows "DeleteTarget L h =
           Inr (if h \<in> set (Targets L)
                then L\<lparr>Targets := remove1 h (Targets L), InsertIndex := InsertIndex L - 1\<rparr>
                else L) \<and>
         (h \<in> set (Targets L) \<longrightarrow>
            (\<exists>pre post. Targets L = pre @ h # post \<and> h \<notin> set pre \<and>
               remove1 h (Targets L) = pre @ post)) \<and>
         (distinct (Targets L) \<longrightarrow>
            (case DeleteTarget L h of Inl x \<Rightarrow> Inl x | Inr L' \<Rightarrow> DeleteTarget L' h)
              = DeleteTarget L h)"
proof -
  have m: "INT_MIN < InsertIndex L" using assms by (simp add: INT_MIN_def)
  have 1: "DeleteTarget L h =
           Inr (if h \<in> set (Targets L)
                then L\<lparr>Targets := remove1 h (Targets L), InsertIndex := InsertIndex L - 1\<rparr>
                else L)"
    using DeleteTarget_present [OF _ m, of h] DeleteTarget_absent [of h L] by simp
  have 2: "\<exists>pre post. Targets L = pre @ h # post \<and> h \<notin> set pre \<and>
               remove1 h (Targets L) = pre @ post" if "h \<in> set (Targets L)"
    using remove1_split_first [OF that] .
  have 3: "(case DeleteTarget L h of Inl x \<Rightarrow> Inl x | Inr L' \<Rightarrow> DeleteTarget L' h)
              = DeleteTarget L h" if d: "distinct (Targets L)"
  proof (cases "h \<in> set (Targets L)")
    case True
    let ?L' = "L\<lparr>Targets := remove1 h (Targets L), InsertIndex := InsertIndex L - 1\<rparr>"
    from d have "h \<notin> set (Targets ?L')" by simp
    from DeleteTarget_absent [OF this] 1 True show ?thesis by simp
  next
    case False
    with 1 show ?thesis by simp
  qed
  from 1 2 3 show ?thesis by blast
qed

theorem DeleteTarget_first_idempotent_witness:
  "InsertIndex example_logger = int (length (Targets example_logger)) \<and>
   0 \<in> set (Targets example_logger) \<and> distinct (Targets example_logger) \<and>
   DeleteTarget example_logger 0 = Inr \<lparr>VerboseLevel = 2, InsertIndex = 1, Targets = [1]\<rparr> \<and>
   (case DeleteTarget example_logger 0 of Inl x \<Rightarrow> Inl x | Inr L' \<Rightarrow> DeleteTarget L' 0)
     = DeleteTarget example_logger 0 \<and>
   DeleteTarget example_logger 5 = Inr example_logger \<and>
   DeleteTarget \<lparr>VerboseLevel = 2, InsertIndex = 3, Targets = [7, 3, 7]\<rparr> 7
     = Inr \<lparr>VerboseLevel = 2, InsertIndex = 2, Targets = [3, 7]\<rparr>"
proof -
  have i: "InsertIndex \<lparr>VerboseLevel = 2, InsertIndex = 3, Targets = [7, 3, 7]\<rparr>
             = int (length (Targets \<lparr>VerboseLevel = 2, InsertIndex = 3, Targets = [7, 3, 7]\<rparr>))"
    by simp
  have m: "0 \<in> set (Targets example_logger)" "distinct (Targets example_logger)"
    "5 \<notin> set (Targets example_logger)"
    by (simp_all add: example_logger_def)
  from DeleteTarget_first_idempotent [OF example_InsertIndex, of 0] m
  have a1: "DeleteTarget example_logger 0
             = Inr \<lparr>VerboseLevel = 2, InsertIndex = 1, Targets = [1]\<rparr>"
    by (simp add: example_logger_def)
  from DeleteTarget_first_idempotent [OF example_InsertIndex, of 0] m(2)
  have a2: "(case DeleteTarget example_logger 0 of Inl x \<Rightarrow> Inl x | Inr L' \<Rightarrow> DeleteTarget L' 0)
       = DeleteTarget example_logger 0"
    by blast
  note a = a1 a2
  from DeleteTarget_first_idempotent [OF example_InsertIndex, of 5] m
  have b: "DeleteTarget example_logger 5 = Inr example_logger"
    by simp
  from DeleteTarget_first_idempotent [OF i, of 7]
  have c: "DeleteTarget \<lparr>VerboseLevel = 2, InsertIndex = 3, Targets = [7, 3, 7]\<rparr> 7
     = Inr \<lparr>VerboseLevel = 2, InsertIndex = 2, Targets = [3, 7]\<rparr>"
    by simp
  from example_InsertIndex m a b c show ?thesis by simp
qed

lemma map_nth_append_upt:
  "map (\<lambda>i. (xs @ ys) ! i) [length xs ..< length xs + length ys] = ys"
  by (rule nth_equalityI) (simp_all add: nth_append)

lemma AddTargets_ok:
  assumes "InsertIndex L = int (length (Targets L))"
    and "int (length (Targets L)) + int (length ts) \<le> INT_MAX"
  shows "AddTargets L ts H =
           Inr ([length (cells H) ..< length (cells H) + length ts],
                L\<lparr>InsertIndex := InsertIndex L + int (length ts),
                  Targets := Targets L @ [length (cells H) ..< length (cells H) + length ts]\<rparr>,
                H\<lparr>cells := cells H @ ts\<rparr>)"
  using assms
proof (induction ts arbitrary: L H)
  case Nil
  then show ?case by simp
next
  case (Cons t ts)
  let ?n = "length (cells H)"
  let ?L1 = "L\<lparr>InsertIndex := InsertIndex L + 1, Targets := Targets L @ [?n]\<rparr>"
  let ?H1 = "H\<lparr>cells := cells H @ [t]\<rparr>"
  from Cons.prems have lt: "int (length (Targets L)) < INT_MAX" by simp
  note a = AddTarget_append [OF Cons.prems(1) lt, of t H]
  have i1: "InsertIndex ?L1 = int (length (Targets ?L1))"
    using Cons.prems(1) by simp
  have b1: "int (length (Targets ?L1)) + int (length ts) \<le> INT_MAX"
    using Cons.prems(2) by simp
  have u: "[?n ..< Suc (?n + length ts)] = ?n # [Suc ?n ..< Suc (?n + length ts)]"
    by (rule upt_conv_Cons) simp
  from Cons.IH [OF i1 b1, of ?H1] a show ?case
    by (simp add: u del: upt_Suc)
qed

lemma renders_after_AddTargets:
  assumes "\<forall>h \<in> set (Targets L). h < length (cells H)"
  shows "renders (L\<lparr>InsertIndex := i,
             Targets := Targets L @ [length (cells H) ..< length (cells H) + length ts]\<rparr>)
           (H\<lparr>cells := cells H @ ts\<rparr>) s m
         = renders L H s m @ map (\<lambda>t. (t, s, m)) ts"
proof -
  have old: "map (\<lambda>h. ((cells H @ ts) ! h, s, m)) (Targets L)
               = map (\<lambda>h. (cells H ! h, s, m)) (Targets L)"
    using assms by (simp add: nth_append)
  have "map (\<lambda>h. ((cells H @ ts) ! h, s, m)) [length (cells H) ..< length (cells H) + length ts]
          = map (\<lambda>t. (t, s, m)) (map (\<lambda>i. (cells H @ ts) ! i)
               [length (cells H) ..< length (cells H) + length ts])"
    by (simp add: comp_def)
  also have "\<dots> = map (\<lambda>t. (t, s, m)) ts"
    by (simp only: map_nth_append_upt)
  finally show ?thesis
    using old by (simp add: renders_def)
qed

lemma targets_ok_after_AddTargets:
  assumes "targets_ok e L H" and "\<forall>t \<in> set ts. target_ok e H t"
  shows "targets_ok e (L\<lparr>InsertIndex := i,
             Targets := Targets L @ [length (cells H) ..< length (cells H) + length ts]\<rparr>)
           (H\<lparr>cells := cells H @ ts\<rparr>)"
proof -
  have ok: "target_ok e (H\<lparr>cells := cells H @ ts\<rparr>) p = target_ok e H p" for p
    by (simp add: target_ok_def)
  have "h < length (cells H @ ts) \<and> target_ok e H ((cells H @ ts) ! h)"
    if "h \<in> set (Targets L)" for h
    using assms(1) that by (auto simp: targets_ok_def nth_append)
  moreover have "h < length (cells H @ ts) \<and> target_ok e H ((cells H @ ts) ! h)"
    if "length (cells H) \<le> h" "h < length (cells H) + length ts" for h
  proof -
    from that have "(cells H @ ts) ! h = ts ! (h - length (cells H))"
      and "h - length (cells H) < length ts"
      by (simp_all add: nth_append)
    with assms(2) that show ?thesis by simp
  qed
  ultimately show ?thesis
    by (auto simp: targets_ok_def ok)
qed

text \<open>
  C3. Registering the pointers \<open>ts\<close> in order appends one handle for each to the end of
  the sequence, in that order, each handle holding its pointer; an accepted \<^verbatim>\<open>Log\<close> call
  then renders to the targets registered before, and after them to the pointers of
  \<open>ts\<close> in the order of registration.
\<close>

theorem AddTarget_order:
  assumes "InsertIndex L = int (length (Targets L))"
    and "int (length (Targets L)) + int (length ts) \<le> INT_MAX"
    and "targets_ok e L H" and "\<forall>t \<in> set ts. target_ok e H t"
    and "VerboseLevel L \<le> ordinal severity"
  shows "\<exists>hs L' H'. AddTargets L ts H = Inr (hs, L', H') \<and>
           Targets L' = Targets L @ hs \<and> length hs = length ts \<and>
           map (\<lambda>h. cells H' ! h) hs = ts \<and>
           (\<exists>H''. Log e L' severity msg H' = Inr H'' \<and>
              rendered H'' = rendered H @ renders L H severity msg
                               @ map (\<lambda>t. (t, severity, msg)) ts)"
proof -
  let ?hs = "[length (cells H) ..< length (cells H) + length ts]"
  let ?L' = "L\<lparr>InsertIndex := InsertIndex L + int (length ts), Targets := Targets L @ ?hs\<rparr>"
  let ?H' = "H\<lparr>cells := cells H @ ts\<rparr>"
  note a = AddTargets_ok [OF assms(1,2), of H]
  have alloc: "\<forall>h \<in> set (Targets L). h < length (cells H)"
    using assms(3) by (simp add: targets_ok_def)
  have ok: "targets_ok e ?L' ?H'"
    using assms(3,4) by (rule targets_ok_after_AddTargets)
  have v: "VerboseLevel ?L' \<le> ordinal severity" using assms(5) by simp
  from Log_accepted [OF ok v, where m = msg] obtain H'' where
    "Log e ?L' severity msg ?H' = Inr H''"
    "rendered H'' = rendered ?H' @ renders ?L' ?H' severity msg" by blast
  then have l: "\<exists>H''. Log e ?L' severity msg ?H' = Inr H'' \<and>
      rendered H'' = rendered H @ renders L H severity msg @ map (\<lambda>t. (t, severity, msg)) ts"
    by (simp add: renders_after_AddTargets [OF alloc])
  have "map (\<lambda>h. cells ?H' ! h) ?hs = ts"
    using map_nth_append_upt [of "cells H" ts] by simp
  with a l show ?thesis by simp
qed

theorem AddTarget_order_witness:
  "InsertIndex example_logger = int (length (Targets example_logger)) \<and>
   int (length (Targets example_logger)) + int (length [11, 10 :: nat]) \<le> INT_MAX \<and>
   targets_ok example_env example_logger example_heap \<and>
   target_ok example_env example_heap 11 \<and> target_ok example_env example_heap 10 \<and>
   VerboseLevel example_logger \<le> ordinal Failure \<and>
   (\<exists>hs L' H'. AddTargets example_logger [11, 10] example_heap = Inr (hs, L', H') \<and>
      Targets L' = Targets example_logger @ hs \<and> length hs = length [11, 10 :: nat] \<and>
      map (\<lambda>h. cells H' ! h) hs = [11, 10] \<and>
      (\<exists>H''. Log example_env L' Failure ''m'' H' = Inr H'' \<and>
         rendered H'' = [(10, Failure, ''m''), (11, Failure, ''m''),
                         (11, Failure, ''m''), (10, Failure, ''m'')]))"
proof -
  have b: "int (length (Targets example_logger)) + int (length [11, 10 :: nat]) \<le> INT_MAX"
    by (simp add: INT_MAX_def example_logger_def)
  have n: "\<forall>t \<in> set [11, 10]. target_ok example_env example_heap t"
    using example_target_ok by simp
  have v: "VerboseLevel example_logger \<le> ordinal Failure"
    by (simp add: example_logger_def)
  from AddTarget_order [OF example_InsertIndex b example_targets_ok n v,
      where msg = "''m''"]
  have "\<exists>hs L' H'. AddTargets example_logger [11, 10] example_heap = Inr (hs, L', H') \<and>
      Targets L' = Targets example_logger @ hs \<and> length hs = length [11, 10 :: nat] \<and>
      map (\<lambda>h. cells H' ! h) hs = [11, 10] \<and>
      (\<exists>H''. Log example_env L' Failure ''m'' H' = Inr H'' \<and>
         rendered H'' = [(10, Failure, ''m''), (11, Failure, ''m''),
                         (11, Failure, ''m''), (10, Failure, ''m'')])"
    by (simp add: example_renders)
  with example_InsertIndex b example_targets_ok example_target_ok v show ?thesis
    by simp
qed

text \<open>
  C7. Registering the same pointer \<open>t\<close> twice gives two different handles that both
  hold \<open>t\<close>, appended in order; removing either handle leaves the other one registered;
  and an accepted \<^verbatim>\<open>Log\<close> call then renders to \<open>t\<close> twice, after the targets registered
  before.
\<close>

theorem AddTarget_twice:
  assumes "InsertIndex L = int (length (Targets L))" and "handles_ok L H"
    and "int (length (Targets L)) + 2 \<le> INT_MAX"
  shows "\<exists>h1 L1 H1 h2 L2 H2.
           AddTarget L t H = Inr (h1, L1, H1) \<and> AddTarget L1 t H1 = Inr (h2, L2, H2) \<and>
           h1 \<noteq> h2 \<and> cells H2 ! h1 = t \<and> cells H2 ! h2 = t \<and>
           Targets L2 = Targets L @ [h1, h2] \<and>
           (\<exists>L3. DeleteTarget L2 h1 = Inr L3 \<and> Targets L3 = Targets L @ [h2]) \<and>
           (\<exists>L3. DeleteTarget L2 h2 = Inr L3 \<and> Targets L3 = Targets L @ [h1]) \<and>
           (targets_ok e L H \<and> target_ok e H t \<and> VerboseLevel L \<le> ordinal severity \<longrightarrow>
              (\<exists>H3. Log e L2 severity msg H2 = Inr H3 \<and>
                 rendered H3 = rendered H @ renders L H severity msg
                                 @ [(t, severity, msg), (t, severity, msg)]))"
proof -
  let ?n = "length (cells H)"
  let ?L1 = "L\<lparr>InsertIndex := InsertIndex L + 1, Targets := Targets L @ [?n]\<rparr>"
  let ?H1 = "H\<lparr>cells := cells H @ [t]\<rparr>"
  let ?L2 = "L\<lparr>InsertIndex := InsertIndex L + 2, Targets := Targets L @ [?n, Suc ?n]\<rparr>"
  let ?H2 = "H\<lparr>cells := cells H @ [t, t]\<rparr>"
  from assms(3) have lt: "int (length (Targets L)) < INT_MAX" by simp
  note a1 = AddTarget_append [OF assms(1) lt, of t H]
  have i1: "InsertIndex ?L1 = int (length (Targets ?L1))" using assms(1) by simp
  have lt1: "int (length (Targets ?L1)) < INT_MAX" using assms(3) by simp
  from AddTarget_append [OF i1 lt1, of t ?H1]
  have a2: "AddTarget ?L1 t ?H1 = Inr (Suc ?n, ?L2, ?H2)" by simp
  from assms(2) have fresh: "?n \<notin> set (Targets L)" "Suc ?n \<notin> set (Targets L)"
    and alloc: "\<forall>h \<in> set (Targets L). h < length (cells H)"
    by (auto simp: handles_ok_def)
  have m: "INT_MIN < InsertIndex ?L2" using assms(1) by (simp add: INT_MIN_def)
  from DeleteTarget_present [OF _ m, of ?n] fresh
  have d1: "\<exists>L3. DeleteTarget ?L2 ?n = Inr L3 \<and> Targets L3 = Targets L @ [Suc ?n]"
    by (simp add: remove1_append)
  from DeleteTarget_present [OF _ m, of "Suc ?n"] fresh
  have d2: "\<exists>L3. DeleteTarget ?L2 (Suc ?n) = Inr L3 \<and> Targets L3 = Targets L @ [?n]"
    by (simp add: remove1_append)
  have c: "cells ?H2 ! ?n = t" "cells ?H2 ! Suc ?n = t"
    by (simp_all add: nth_append)
  have l: "\<exists>H3. Log e ?L2 severity msg ?H2 = Inr H3 \<and>
                 rendered H3 = rendered H @ renders L H severity msg
                                 @ [(t, severity, msg), (t, severity, msg)]"
    if ok: "targets_ok e L H" "target_ok e H t" and v: "VerboseLevel L \<le> ordinal severity"
  proof -
    have u: "[?n ..< ?n + length [t, t]] = [?n, Suc ?n]"
      by (simp add: upt_conv_Cons)
    from ok(2) have "\<forall>x \<in> set [t, t]. target_ok e H x" by simp
    from targets_ok_after_AddTargets [OF ok(1) this, where i = "InsertIndex L + 2"]
    have ok2: "targets_ok e ?L2 ?H2" by (simp only: u)
    have v2: "VerboseLevel ?L2 \<le> ordinal severity" using v by simp
    from renders_after_AddTargets [OF alloc, where i = "InsertIndex L + 2" and ts = "[t, t]"
        and s = severity and m = msg]
    have r: "renders ?L2 ?H2 severity msg
               = renders L H severity msg @ [(t, severity, msg), (t, severity, msg)]"
      by (simp only: u list.map)
    from Log_accepted [OF ok2 v2, where m = msg] show ?thesis
      by (simp add: r)
  qed
  from a1 a2 d1 d2 c l show ?thesis
    by (intro exI [of _ ?n] exI [of _ ?L1] exI [of _ ?H1] exI [of _ "Suc ?n"]
        exI [of _ ?L2] exI [of _ ?H2]) simp
qed

theorem AddTarget_twice_witness:
  "InsertIndex example_logger = int (length (Targets example_logger)) \<and>
   handles_ok example_logger example_heap \<and>
   int (length (Targets example_logger)) + 2 \<le> INT_MAX \<and>
   targets_ok example_env example_logger example_heap \<and> target_ok example_env example_heap 10 \<and>
   VerboseLevel example_logger \<le> ordinal Failure \<and>
   (\<exists>h1 L1 H1 h2 L2 H2.
      AddTarget example_logger 10 example_heap = Inr (h1, L1, H1) \<and>
      AddTarget L1 10 H1 = Inr (h2, L2, H2) \<and>
      h1 \<noteq> h2 \<and> cells H2 ! h1 = 10 \<and> cells H2 ! h2 = 10 \<and>
      Targets L2 = Targets example_logger @ [h1, h2] \<and>
      (\<exists>L3. DeleteTarget L2 h1 = Inr L3 \<and> Targets L3 = Targets example_logger @ [h2]) \<and>
      (\<exists>L3. DeleteTarget L2 h2 = Inr L3 \<and> Targets L3 = Targets example_logger @ [h1]) \<and>
      (\<exists>H3. Log example_env L2 Failure ''m'' H2 = Inr H3 \<and>
         rendered H3 = [(10, Failure, ''m''), (11, Failure, ''m''),
                        (10, Failure, ''m''), (10, Failure, ''m'')]))"
proof -
  have b: "int (length (Targets example_logger)) + 2 \<le> INT_MAX"
    by (simp add: INT_MAX_def example_logger_def)
  have v: "VerboseLevel example_logger \<le> ordinal Failure"
    by (simp add: example_logger_def)
  from AddTarget_twice [OF example_InsertIndex example_handles_ok b,
      where t = 10 and severity = Failure and e = example_env and msg = "''m''"]
    example_targets_ok example_target_ok(1) v
  have "\<exists>h1 L1 H1 h2 L2 H2.
      AddTarget example_logger 10 example_heap = Inr (h1, L1, H1) \<and>
      AddTarget L1 10 H1 = Inr (h2, L2, H2) \<and>
      h1 \<noteq> h2 \<and> cells H2 ! h1 = 10 \<and> cells H2 ! h2 = 10 \<and>
      Targets L2 = Targets example_logger @ [h1, h2] \<and>
      (\<exists>L3. DeleteTarget L2 h1 = Inr L3 \<and> Targets L3 = Targets example_logger @ [h2]) \<and>
      (\<exists>L3. DeleteTarget L2 h2 = Inr L3 \<and> Targets L3 = Targets example_logger @ [h1]) \<and>
      (\<exists>H3. Log example_env L2 Failure ''m'' H2 = Inr H3 \<and>
         rendered H3 = [(10, Failure, ''m''), (11, Failure, ''m''),
                        (10, Failure, ''m''), (10, Failure, ''m'')])"
    by (simp add: example_renders)
  with example_InsertIndex example_handles_ok b example_targets_ok example_target_ok(1) v
  show ?thesis by simp
qed

subsection \<open>The line written by a console target\<close>

lemma spec_segments_plain:
  "\<not> (AddColors t \<and> WholeMessageColor t) \<Longrightarrow>
     spec_segments e t n s m = (if Prefix t \<noteq> [] then [Prefix t] else []) @ text_segments e t n s m"
  by (simp add: spec_segments_def text_segments_def)

text \<open>
  C6, as stated, fails: a default console target with prefix \<open>[P]\<close> writes the colour
  sequence directly before the timestamp and ends the message with a newline followed by
  the reset sequence, whereas joining the enabled segments by single spaces puts a space
  after the colour sequence and a space, not a newline, before the reset sequence. The
  output differs from the joined segments, with or without a final newline.
\<close>

theorem ConsoleTarget_Log_spec_line_counterexample:
  "cout (ConsoleTarget_Log example_env example_target Failure ''m'' example_heap)
     = ''[P] '' @ CHR 0x1B # ''[31m2024-01-01 00:00:00 [ FAILURE ] [1] m''
         @ CHR 0x0A # CHR 0x1B # ''[0m'' \<and>
   spec_line example_env example_target (clock_reads example_heap) Failure ''m''
     = ''[P] '' @ CHR 0x1B # ''[31m 2024-01-01 00:00:00 [ FAILURE ] [1] m ''
         @ CHR 0x1B # ''[0m'' \<and>
   cout (ConsoleTarget_Log example_env example_target Failure ''m'' example_heap)
     \<noteq> cout example_heap
         @ spec_line example_env example_target (clock_reads example_heap) Failure ''m'' \<and>
   cout (ConsoleTarget_Log example_env example_target Failure ''m'' example_heap)
     \<noteq> cout example_heap
         @ spec_line example_env example_target (clock_reads example_heap) Failure ''m''
         @ [CHR 0x0A]"
  by (simp add: ConsoleTarget_Log_def Let_def cout_put_def UTCTime_def spec_line_def
      spec_segments_def example_env_def example_target_def example_heap_def
      ConsoleTarget_new_def Target_default_def Target_SetPrefix_def
      SeverityLevelToColor_reset_def)

text \<open>
  C6, amended. The text that \<^verbatim>\<open>ConsoleTarget::Log\<close> appends to standard output is
  composed left to right. Without whole-message colour (colours off, or on for the tag
  only) it is the enabled segments in the stated order, that is the prefix when it is not
  empty, the timestamp when enabled, the severity tag (wrapped in its colour and the
  reset when colours are on), the thread id in brackets when enabled, and the message,
  joined by single spaces and ended by a newline. With colours on and whole-message
  colour, it is the prefix and a space when the prefix is not empty, the colour sequence
  with no space after it, the timestamp, tag, thread id and message joined by single
  spaces, a newline, and the reset sequence after the newline.
\<close>

theorem ConsoleTarget_Log_line:
  "cout (ConsoleTarget_Log e t severity msg H)
     = cout H @ console_line e t (clock_reads H) severity msg \<and>
   console_line e t n severity msg
     = (if AddColors t \<and> WholeMessageColor t
        then (if Prefix t \<noteq> [] then Prefix t @ '' '' else []) @
             SeverityLevelToColor severity @
             join ((if AddTime t then [clock e n] else []) @
                   [SeverityLevelToText severity] @
                   (if AddThreadID t then [''['' @ thread_id e @ '']''] else []) @
                   [msg]) @
             [CHR 0x0A] @ SeverityLevelToColor_reset
        else spec_line e t n severity msg @ [CHR 0x0A])"
proof -
  have "cout (ConsoleTarget_Log e t severity msg H)
     = cout H @ console_line e t (clock_reads H) severity msg"
    by (simp add: ConsoleTarget_Log_eq)
  moreover have "console_line e t n severity msg
     = (if AddColors t \<and> WholeMessageColor t
        then (if Prefix t \<noteq> [] then Prefix t @ '' '' else []) @
             SeverityLevelToColor severity @
             join ((if AddTime t then [clock e n] else []) @
                   [SeverityLevelToText severity] @
                   (if AddThreadID t then [''['' @ thread_id e @ '']''] else []) @
                   [msg]) @
             [CHR 0x0A] @ SeverityLevelToColor_reset
        else spec_line e t n severity msg @ [CHR 0x0A])"
  proof (cases "AddColors t \<and> WholeMessageColor t")
    case True
    then show ?thesis by (simp add: console_line_def text_segments_def)
  next
    case False
    from spec_segments_plain [OF this] False show ?thesis
      by (simp only: console_line_def spec_line_def if_False)
  qed
  ultimately show ?thesis by blast
qed

subsection \<open>Prefixes are per target\<close>

lemma SetPrefix_Some:
  "objs H p = Some obj \<Longrightarrow>
     SetPrefix p prefix H
       = Inr (H\<lparr>objs := (objs H)(p \<mapsto> map_base (Target_SetPrefix prefix) obj)\<rparr>)"
  by (simp add: SetPrefix_def)

lemma FileTarget_Log_objs_upd:
  "FileTarget_Log e t f s m (H\<lparr>objs := X\<rparr>)
     = map_sum id (\<lambda>(f', H'). (f', H'\<lparr>objs := X\<rparr>)) (FileTarget_Log e t f s m H)"
  by (simp add: FileTarget_Log_eq)

lemma FileTarget_Log_objs:
  "FileTarget_Log e t f s m H = Inr (f', H') \<Longrightarrow> objs H' = objs H"
  by (auto simp: FileTarget_Log_eq split: if_splits)

lemma Target_Log_objs_upd:
  assumes "p \<noteq> q"
  shows "Target_Log e q s m (H\<lparr>objs := (objs H)(p \<mapsto> x)\<rparr>)
     = map_sum id (\<lambda>H2. H2\<lparr>objs := (objs H2)(p \<mapsto> x)\<rparr>) (Target_Log e q s m H)"
proof (cases "objs H q")
  case None
  with assms show ?thesis by (simp add: Target_Log_def)
next
  case (Some obj)
  show ?thesis
  proof (cases obj)
    case (ConsoleTarget t)
    with Some assms show ?thesis
      by (simp add: Target_Log_def ConsoleTarget_Log_eq)
  next
    case (FileTarget t f)
    let ?H = "H\<lparr>rendered := rendered H @ [(q, s, m)]\<rparr>"
    have u: "H\<lparr>objs := (objs H)(p \<mapsto> x), rendered := rendered H @ [(q, s, m)]\<rparr>
               = ?H\<lparr>objs := (objs H)(p \<mapsto> x)\<rparr>" by simp
    show ?thesis
    proof (cases "FileTarget_Log e t f s m ?H")
      case (Inl a)
      with Some FileTarget assms show ?thesis
        by (simp add: Target_Log_def u FileTarget_Log_objs_upd del: heap.update_convs)
    next
      case (Inr r)
      obtain f' H' where r: "r = (f', H')" by (cases r)
      from Inr r have o: "objs H' = objs H"
        using FileTarget_Log_objs [of e t f s m ?H f' H'] by simp
      from Inr r Some FileTarget assms o show ?thesis
        by (simp add: Target_Log_def u FileTarget_Log_objs_upd fun_upd_twist
            del: heap.update_convs)
    qed
  qed
qed

text \<open>
  C8. For two different pointers \<open>p\<close> and \<open>q\<close>, \<open>p\<close> pointing to a target,
  \<^verbatim>\<open>p->SetPrefix(prefix)\<close> succeeds and changes the prefix of the object at \<open>p\<close> and
  nothing else: the object at \<open>q\<close> and standard output are as before, and a later
  \<^verbatim>\<open>q->Log\<close> call has the same outcome as without the change, the same fault or the
  same text on standard output and the same object at \<open>q\<close>, its file text included. A
  later \<^verbatim>\<open>p->Log\<close> call writes the line composed with the new prefix, to standard
  output for a console target and to its stream for a file target.
\<close>

theorem SetPrefix_frame:
  assumes "p \<noteq> q" and "objs H p = Some obj"
  shows "\<exists>H1. SetPrefix p prefix H = Inr H1 \<and>
           objs H1 p = Some (map_base (Target_SetPrefix prefix) obj) \<and>
           base (map_base (Target_SetPrefix prefix) obj) = (base obj)\<lparr>Prefix := prefix\<rparr> \<and>
           objs H1 q = objs H q \<and> cout H1 = cout H \<and>
           map_sum id (\<lambda>H2. (cout H2, objs H2 q)) (Target_Log e q severity msg H1)
             = map_sum id (\<lambda>H2. (cout H2, objs H2 q)) (Target_Log e q severity msg H) \<and>
           (case obj of
              ConsoleTarget t \<Rightarrow>
                map_sum id cout (Target_Log e p severity msg H1)
                  = Inr (cout H @ console_line e (t\<lparr>Prefix := prefix\<rparr>) (clock_reads H)
                                    severity msg)
            | FileTarget t f \<Rightarrow>
                map_sum id (\<lambda>H2. objs H2 p) (Target_Log e p severity msg H1)
                  = (if \<not> fs_good f \<and> sentry_throws e then Inl ios_failure
                     else Inr (Some (FileTarget (t\<lparr>Prefix := prefix\<rparr>)
                            (if fs_good f
                             then f\<lparr>fs_data := fs_data f
                                    @ console_line e (t\<lparr>Prefix := prefix, AddColors := False\<rparr>)
                                        (clock_reads H) severity msg\<rparr>
                             else f)))))"
proof -
  let ?x = "map_base (Target_SetPrefix prefix) obj"
  let ?H1 = "H\<lparr>objs := (objs H)(p \<mapsto> ?x)\<rparr>"
  note s = SetPrefix_Some [OF assms(2), of prefix]
  have b: "base ?x = (base obj)\<lparr>Prefix := prefix\<rparr>"
    by (cases obj) (simp_all add: Target_SetPrefix_def)
  have f: "map_sum id (\<lambda>H2. (cout H2, objs H2 q)) (Target_Log e q severity msg ?H1)
             = map_sum id (\<lambda>H2. (cout H2, objs H2 q)) (Target_Log e q severity msg H)"
    using assms(1)
    by (cases "Target_Log e q severity msg H")
      (simp_all add: Target_Log_objs_upd [OF assms(1)])
  have own: "case obj of
              ConsoleTarget t \<Rightarrow>
                map_sum id cout (Target_Log e p severity msg ?H1)
                  = Inr (cout H @ console_line e (t\<lparr>Prefix := prefix\<rparr>) (clock_reads H)
                                    severity msg)
            | FileTarget t f \<Rightarrow>
                map_sum id (\<lambda>H2. objs H2 p) (Target_Log e p severity msg ?H1)
                  = (if \<not> fs_good f \<and> sentry_throws e then Inl ios_failure
                     else Inr (Some (FileTarget (t\<lparr>Prefix := prefix\<rparr>)
                            (if fs_good f
                             then f\<lparr>fs_data := fs_data f
                                    @ console_line e (t\<lparr>Prefix := prefix, AddColors := False\<rparr>)
                                        (clock_reads H) severity msg\<rparr>
                             else f))))"
    by (cases obj)
      (simp_all add: Target_Log_def ConsoleTarget_Log_eq FileTarget_Log_eq Target_SetPrefix_def)
  from s b f own assms(1) show ?thesis by simp
qed

theorem SetPrefix_frame_witness:
  "(10 :: nat) \<noteq> 11 \<and>
   objs example_heap 10 = Some (ConsoleTarget_new True True True True) \<and>
   objs example_heap 11 = Some (FileTarget_new True ''LogFile.log'' False True True) \<and>
   (\<exists>H1. SetPrefix 10 ''[A]'' example_heap = Inr H1 \<and>
      objs H1 11 = objs example_heap 11 \<and> cout H1 = cout example_heap \<and>
      map_sum id (\<lambda>H2. (cout H2, objs H2 11)) (Target_Log example_env 11 Failure ''m'' H1)
        = map_sum id (\<lambda>H2. (cout H2, objs H2 11))
            (Target_Log example_env 11 Failure ''m'' example_heap) \<and>
      map_sum id cout (Target_Log example_env 10 Failure ''m'' H1)
        = Inr (''[A] '' @ CHR 0x1B # ''[31m2024-01-01 00:00:00 [ FAILURE ] [1] m''
                 @ CHR 0x0A # CHR 0x1B # ''[0m'')) \<and>
   (\<exists>H1. SetPrefix 11 ''[B]'' example_heap = Inr H1 \<and>
      objs H1 10 = objs example_heap 10 \<and> cout H1 = cout example_heap \<and>
      map_sum id (\<lambda>H2. (cout H2, objs H2 10)) (Target_Log example_env 10 Failure ''m'' H1)
        = map_sum id (\<lambda>H2. (cout H2, objs H2 10))
            (Target_Log example_env 10 Failure ''m'' example_heap))"
proof -
  have n: "(10 :: nat) \<noteq> 11" by simp
  have o: "objs example_heap 10 = Some (ConsoleTarget_new True True True True)"
    "objs example_heap 11 = Some (FileTarget_new True ''LogFile.log'' False True True)"
    by (simp_all add: example_heap_def)
  have c: "cout example_heap = []" "clock_reads example_heap = 0"
    by (simp_all add: example_heap_def)
  have l: "console_line example_env
             (Target_default\<lparr>AddColors := True, WholeMessageColor := True, AddTime := True,
                AddThreadID := True, Prefix := ''[A]''\<rparr>) 0 Failure ''m''
           = ''[A] '' @ CHR 0x1B # ''[31m2024-01-01 00:00:00 [ FAILURE ] [1] m''
                 @ CHR 0x0A # CHR 0x1B # ''[0m''"
    by (simp add: console_line_def text_segments_def Target_default_def example_env_def
        SeverityLevelToColor_reset_def)
  from SetPrefix_frame [OF n o(1), of "''[A]''" example_env Failure "''m''"]
  have a: "\<exists>H1. SetPrefix 10 ''[A]'' example_heap = Inr H1 \<and>
      objs H1 11 = objs example_heap 11 \<and> cout H1 = cout example_heap \<and>
      map_sum id (\<lambda>H2. (cout H2, objs H2 11)) (Target_Log example_env 11 Failure ''m'' H1)
        = map_sum id (\<lambda>H2. (cout H2, objs H2 11))
            (Target_Log example_env 11 Failure ''m'' example_heap) \<and>
      map_sum id cout (Target_Log example_env 10 Failure ''m'' H1)
        = Inr (''[A] '' @ CHR 0x1B # ''[31m2024-01-01 00:00:00 [ FAILURE ] [1] m''
                 @ CHR 0x0A # CHR 0x1B # ''[0m'')"
    by (auto simp add: ConsoleTarget_new_def c l)
  from SetPrefix_frame [OF n [symmetric] o(2), of "''[B]''" example_env Failure "''m''"]
  have b: "\<exists>H1. SetPrefix 11 ''[B]'' example_heap = Inr H1 \<and>
      objs H1 10 = objs example_heap 10 \<and> cout H1 = cout example_heap \<and>
      map_sum id (\<lambda>H2. (cout H2, objs H2 10)) (Target_Log example_env 10 Failure ''m'' H1)
        = map_sum id (\<lambda>H2. (cout H2, objs H2 10))
            (Target_Log example_env 10 Failure ''m'' example_heap)"
    by (auto simp add: FileTarget_new_def)
  from n o a b show ?thesis by simp
qed

end
